theory Spec2Isabelle
  imports Main
begin

section \<open>The MAL block, as opt\_coercion.c sees it\<close>

text \<open>
  Modelled from the spec: the types \<open>MalBlkRecord\<close>, \<open>InstrRecord\<close> and \<open>VarRecord\<close>
  and the accessor macros on them (\<open>getArg\<close>, \<open>getInstrPtr\<close>, \<open>getModuleId\<close>,
  \<open>getFunctionId\<close>, \<open>getVarType\<close>, \<open>getArgType\<close>, \<open>isVarConstant\<close>,
  \<open>getVarConstant\<close>) are declared in the headers of the MAL kernel, which are not
  among the sources at hand. A MAL block \<open>mb\<close> is an array \<open>mb->stmt\<close> of \<open>mb->stop\<close>
  instructions and a variable table \<open>mb->var\<close>. An instruction carries the interned
  names of its module and function (either may be the null pointer), the number
  \<open>retc\<close> of result slots and its argument slots \<open>argv[0..argc-1]\<close>, which hold
  variable identifiers (indices into the variable table). The first \<open>retc\<close> slots
  are results, the others operands. A variable has one static type, a flag saying
  whether it is a constant, and then its value.

  Interned names are compared by pointer in the C code; the name space holds one copy
  of every name, so pointer equality is equality of the strings. A null name is \<open>None\<close>.
  The variable table and the scratch table of the optimizer are total functions on
  identifiers: the C arrays are their restrictions to the identifiers below
  \<open>mb->vtop\<close>, and every identifier stored in a slot of a MAL block is below it.
  \<open>argc\<close> is the length of the list of argument slots and \<open>mb->stop\<close> the length of
  the list of instructions.
\<close>

record VarRecord =
  vartype :: int
  isconstant :: bool
  ival :: int

record InstrRecord =
  modname :: "string option"
  fcnname :: "string option"
  retc :: nat
  argv :: "nat list"

record MalBlkRecord =
  stmt :: "InstrRecord list"
  var :: "nat \<Rightarrow> VarRecord"

definition argc :: "InstrRecord \<Rightarrow> nat" where
  "argc p = length (argv p)"

definition stop :: "MalBlkRecord \<Rightarrow> nat" where
  "stop mb = length (stmt mb)"

definition getArg :: "InstrRecord \<Rightarrow> nat \<Rightarrow> nat" where
  "getArg p k = argv p ! k"

definition setArg :: "InstrRecord \<Rightarrow> nat \<Rightarrow> nat \<Rightarrow> InstrRecord" where
  "setArg p k v = p\<lparr>argv := (argv p)[k := v]\<rparr>"

definition getInstrPtr :: "MalBlkRecord \<Rightarrow> nat \<Rightarrow> InstrRecord" where
  "getInstrPtr mb i = stmt mb ! i"

definition setInstr :: "MalBlkRecord \<Rightarrow> nat \<Rightarrow> InstrRecord \<Rightarrow> MalBlkRecord" where
  \<comment> \<open>A write through the pointer \<open>getInstrPtr(mb,i)\<close>.\<close>
  "setInstr mb i p = mb\<lparr>stmt := (stmt mb)[i := p]\<rparr>"

definition getModuleId :: "InstrRecord \<Rightarrow> string option" where
  "getModuleId p = modname p"

definition getFunctionId :: "InstrRecord \<Rightarrow> string option" where
  "getFunctionId p = fcnname p"

definition getVarType :: "MalBlkRecord \<Rightarrow> nat \<Rightarrow> int" where
  "getVarType mb v = vartype (var mb v)"

definition getArgType :: "MalBlkRecord \<Rightarrow> InstrRecord \<Rightarrow> nat \<Rightarrow> int" where
  "getArgType mb p k = getVarType mb (getArg p k)"

definition isVarConstant :: "MalBlkRecord \<Rightarrow> nat \<Rightarrow> bool" where
  "isVarConstant mb v = isconstant (var mb v)"

definition getVarConstant_ival :: "MalBlkRecord \<Rightarrow> nat \<Rightarrow> int" where
  \<comment> \<open>\<open>getVarConstant(mb,v).val.ival\<close>\<close>
  "getVarConstant_ival mb v = ival (var mb v)"

text \<open>
  Modelled from the spec: the interned names \<open>batcalcRef\<close>, \<open>hgeRef\<close>, \<open>plusRef\<close>,
  \<open>minusRef\<close>, \<open>mulRef\<close> and \<open>divRef\<close> are declared in the MAL name space, which is
  not among the sources at hand. They are the names of the module \<open>batcalc\<close>
  (arithmetic over columns), of the constructor of the wide type and of the
  functions \<open>+\<close>, \<open>-\<close>, \<open>*\<close> and \<open>/\<close>. \<open>calcRef\<close> is \<open>putName("calc",4)\<close> in the
  optimizer itself.
\<close>

definition batcalcRef :: "string option" where "batcalcRef = Some ''batcalc''"
definition hgeRef :: "string option" where "hgeRef = Some ''hge''"
definition plusRef :: "string option" where "plusRef = Some ''+''"
definition minusRef :: "string option" where "minusRef = Some ''-''"
definition mulRef :: "string option" where "mulRef = Some ''*''"
definition divRef :: "string option" where "divRef = Some ''/''"
definition calcRef :: "string option" where "calcRef = Some ''calc''"

text \<open>
  What the type system of the kernel supplies and the optimizer only uses: the
  canonical name of an atomic type (\<open>ATOMname\<close>), the macro that strips the column
  wrapper from a type (\<open>getColumnType\<close>), whether the build has the wide type
  (\<open>HAVE_HGE\<close>) and its tag (\<open>TYPE_hge\<close>). None of them is defined in the sources at
  hand, so they are parameters of the model.
\<close>

record Env =
  ATOMname :: "int \<Rightarrow> string"
  getColumnType :: "int \<Rightarrow> int"
  HAVE_HGE :: bool
  TYPE_hge :: int

section \<open>The scratch table\<close>

record Coercion =
  pc :: nat
  fromtype :: int
  totype :: int
  src :: nat
  digits :: int
  scale :: int

definition zeroCoercion :: Coercion where
  \<comment> \<open>An entry of the table as \<open>GDKzalloc\<close> returns it.\<close>
  "zeroCoercion = \<lparr>pc = 0, fromtype = 0, totype = 0, src = 0, digits = 0, scale = 0\<rparr>"

text \<open>
  \<open>coercionOptimizerStep\<close> hands the function name to \<open>strcmp\<close> without a test; on a
  null name the C program has no defined behaviour. The model stops there with an
  error, and so does the driver.
\<close>

datatype error = NullFunctionId

section \<open>coercionOptimizerStep\<close>

text \<open>
  Modelled from the spec: \<open>removeInstruction(mb, p)\<close> belongs to the MAL kernel and
  is not among the sources at hand. It removes the instruction \<open>p\<close> from the block,
  shifting the instructions behind it down by one; \<open>p\<close> is the instruction at
  index \<open>i\<close> of the block, so the model takes the index.
\<close>

definition removeInstruction :: "MalBlkRecord \<Rightarrow> nat \<Rightarrow> MalBlkRecord" where
  "removeInstruction mb i = mb\<lparr>stmt := take i (stmt mb) @ drop (Suc i) (stmt mb)\<rparr>"

text \<open>
  The two nested loops after the removal visit every operand slot once and write
  to the slot they read, so each is a \<open>map\<close> over the slots, respectively the
  instructions, it runs through.
\<close>

definition renameOperands :: "nat \<Rightarrow> nat \<Rightarrow> InstrRecord \<Rightarrow> InstrRecord" where
  \<comment> \<open>\<open>for (k = p->retc; k < p->argc; k++) if (p->argv[k] == a) p->argv[k] = b;\<close>\<close>
  "renameOperands a b p =
     p\<lparr>argv := take (retc p) (argv p) @
                map (\<lambda>v. if v = a then b else v) (drop (retc p) (argv p))\<rparr>"

definition renameFrom :: "nat \<Rightarrow> nat \<Rightarrow> nat \<Rightarrow> MalBlkRecord \<Rightarrow> MalBlkRecord" where
  \<comment> \<open>\<open>for (; i < mb->stop; i++) { p = getInstrPtr(mb, i); ... }\<close>\<close>
  "renameFrom a b i mb =
     mb\<lparr>stmt := take i (stmt mb) @ map (renameOperands a b) (drop i (stmt mb))\<rparr>"

definition coercionOptimizerStep ::
  "Env \<Rightarrow> MalBlkRecord \<Rightarrow> nat \<Rightarrow> InstrRecord \<Rightarrow> error + (MalBlkRecord \<times> int)" where
  "coercionOptimizerStep env mb i p =
     (let a = getArg p 0;
          b = getArg p 1;
          t = getVarType mb b
      in if getVarType mb a \<noteq> t then Inr (mb, 0)
         else (case getFunctionId p of
                 None \<Rightarrow> Inl NullFunctionId
               | Some f \<Rightarrow>
                   if f = ATOMname env t
                   then Inr (renameFrom a b i (removeInstruction mb i), 1)
                   else Inr (mb, 0)))"

section \<open>coercionOptimizerCalcStep\<close>

definition firstCharIs :: "string option \<Rightarrow> char \<Rightarrow> bool" where
  \<comment> \<open>\<open>*s == c\<close> for a C string \<open>s\<close>; the first byte of the empty string is NUL.\<close>
  "firstCharIs s c = (case s of Some (x # _) \<Rightarrow> x = c | _ \<Rightarrow> False)"

definition coercionOptimizerCalcStep ::
  "Env \<Rightarrow> MalBlkRecord \<Rightarrow> nat \<Rightarrow> (nat \<Rightarrow> Coercion) \<Rightarrow> MalBlkRecord" where
  "coercionOptimizerCalcStep env mb i coerce =
     (let p = getInstrPtr mb i
      in if getModuleId p \<noteq> batcalcRef \<or> getFunctionId p = None then mb
         else if \<not> (getFunctionId p = plusRef \<or> getFunctionId p = minusRef \<or>
                    getFunctionId p = mulRef \<or> getFunctionId p = divRef \<or>
                    firstCharIs (getFunctionId p) (CHR ''%'')) \<or> argc p \<noteq> 3
         then mb
         else
           let r = getColumnType env (getVarType mb (getArg p 0));
               a = getColumnType env (getVarType mb (getArg p 1));
               b = getColumnType env (getVarType mb (getArg p 2));
               p1 = (if a = r \<and> src (coerce (getArg p 1)) \<noteq> 0 \<and>
                        fromtype (coerce (getArg p 1)) < r
                     then setArg p 1 (src (coerce (getArg p 1))) else p);
               p2 = (if b = r \<and> src (coerce (getArg p1 2)) \<noteq> 0 \<and>
                        fromtype (coerce (getArg p1 2)) < r
                     then setArg p1 2 (src (coerce (getArg p1 2))) else p1)
           in setInstr mb i p2)"

section \<open>OPTcoercionImplementation\<close>

definition wideConstructor :: "Env \<Rightarrow> MalBlkRecord \<Rightarrow> InstrRecord \<Rightarrow> bool" where
  \<comment> \<open>The test of the block under \<open>#ifdef HAVE_HGE\<close>; without the flag the block is absent.\<close>
  "wideConstructor env mb p =
     (HAVE_HGE env \<and> getModuleId p = batcalcRef \<and> getFunctionId p = hgeRef \<and>
      retc p = 1 \<and> argc p = 5 \<and>
      isVarConstant mb (getArg p 4) \<and> isVarConstant mb (getArg p 3))"

definition recordCandidate ::
  "Env \<Rightarrow> MalBlkRecord \<Rightarrow> nat \<Rightarrow> InstrRecord \<Rightarrow> (nat \<Rightarrow> Coercion) \<Rightarrow> (nat \<Rightarrow> Coercion)" where
  "recordCandidate env mb i p coerce =
     (if wideConstructor env mb p
      then let k = getArg p 0
           in coerce(k := \<lparr>pc = i,
                           fromtype = getColumnType env (getArgType mb p 2),
                           totype = TYPE_hge env,
                           src = getArg p 2,
                           digits = getVarConstant_ival mb (getArg p 3),
                           scale = getVarConstant_ival mb (getArg p 4)\<rparr>)
      else coerce)"

text \<open>
  One turn of the loop of the driver at index \<open>i\<close>, with the index of the next turn:
  after a removal the code decrements \<open>i\<close> and the loop header increments it again,
  so the next turn is at \<open>i\<close> once more.
\<close>

definition iteration ::
  "Env \<Rightarrow> MalBlkRecord \<times> (nat \<Rightarrow> Coercion) \<times> nat \<times> int \<Rightarrow>
   error + (MalBlkRecord \<times> (nat \<Rightarrow> Coercion) \<times> nat \<times> int)" where
  "iteration env s =
     (case s of (mb, coerce, i, actions) \<Rightarrow>
        if getModuleId (getInstrPtr mb i) = None then Inr (mb, coerce, i + 1, actions)
        else
          let coerce1 = recordCandidate env mb i (getInstrPtr mb i) coerce;
              mb1 = coercionOptimizerCalcStep env mb i coerce1;
              p = getInstrPtr mb1 i
          in if getModuleId p = calcRef \<and> argc p = 2
             then (case coercionOptimizerStep env mb1 i p of
                     Inl e \<Rightarrow> Inl e
                   | Inr (mb2, k) \<Rightarrow>
                       Inr (mb2, coerce1, (if k \<noteq> 0 then i else i + 1), actions + k))
             else Inr (mb1, coerce1, i + 1, actions))"

definition scanMeasure :: "MalBlkRecord \<times> (nat \<Rightarrow> Coercion) \<times> nat \<times> int \<Rightarrow> nat" where
  "scanMeasure s = (case s of (mb, coerce, i, actions) \<Rightarrow> 2 * stop mb - i)"

lemma stop_calcStep [simp]: "stop (coercionOptimizerCalcStep env mb i coerce) = stop mb"
  by (simp add: coercionOptimizerCalcStep_def Let_def setInstr_def stop_def)

lemma step_stop:
  assumes "coercionOptimizerStep env mb i p = Inr (mb', k)" and "i < stop mb"
  shows "(k \<noteq> 0 \<longrightarrow> Suc (stop mb') = stop mb) \<and> (k = 0 \<longrightarrow> mb' = mb)"
  using assms
  by (auto simp: coercionOptimizerStep_def Let_def renameFrom_def removeInstruction_def
        stop_def split: if_splits option.splits)

lemma iteration_measure:
  assumes "iteration env s = Inr s'" and "fst (snd (snd s)) < stop (fst s)"
  shows "scanMeasure s' < scanMeasure s"
proof -
  obtain mb coerce i actions where s: "s = (mb, coerce, i, actions)"
    by (cases s) auto
  show ?thesis
    using assms step_stop [of env "coercionOptimizerCalcStep env mb i
        (recordCandidate env mb i (getInstrPtr mb i) coerce)" i]
    unfolding s iteration_def scanMeasure_def
    by (fastforce simp: Let_def split: if_splits sum.splits prod.splits)
qed

function loop ::
  "Env \<Rightarrow> MalBlkRecord \<times> (nat \<Rightarrow> Coercion) \<times> nat \<times> int \<Rightarrow> error + (MalBlkRecord \<times> int)" where
  "loop env s =
     (case s of (mb, coerce, i, actions) \<Rightarrow>
        if i < stop mb
        then (case iteration env s of Inl e \<Rightarrow> Inl e | Inr s' \<Rightarrow> loop env s')
        else Inr (mb, actions))"
  by pat_completeness auto
termination
  apply (relation "measure (\<lambda>(env, s). scanMeasure s)")
   apply simp
  subgoal for env s mb x2 coerce y i actions s'
    using iteration_measure [of env s s'] by auto
  done

definition OPTcoercionImplementation ::
  "Env \<Rightarrow> bool \<Rightarrow> MalBlkRecord \<Rightarrow> error + (MalBlkRecord \<times> int)" where
  \<comment> \<open>\<open>alloc\<close> says whether \<open>GDKzalloc\<close> returned the table.\<close>
  "OPTcoercionImplementation env alloc mb =
     (if \<not> alloc then Inr (mb, 0)
      else loop env (mb, (\<lambda>v. zeroCoercion), 1, 0))"

declare loop.simps [simp del]

text \<open>
  The states the loop passes through when started in \<open>s0\<close>: the start, and the state
  after each completed turn.
\<close>

inductive scanned ::
  "Env \<Rightarrow> MalBlkRecord \<times> (nat \<Rightarrow> Coercion) \<times> nat \<times> int \<Rightarrow>
   MalBlkRecord \<times> (nat \<Rightarrow> Coercion) \<times> nat \<times> int \<Rightarrow> bool"
  for env :: Env and s0 :: "MalBlkRecord \<times> (nat \<Rightarrow> Coercion) \<times> nat \<times> int" where
  scanned_start: "scanned env s0 s0"
| scanned_turn:
    "scanned env s0 (mb, c, i, n) \<Longrightarrow> i < stop mb \<Longrightarrow> iteration env (mb, c, i, n) = Inr s' \<Longrightarrow>
     scanned env s0 s'"

text \<open>
  The candidates the scan has recorded. \<open>recorded env s0 s v e\<close> says that in state
  \<open>s\<close> of the scan started in \<open>s0\<close> a candidate is recorded for the variable \<open>v\<close>,
  and that \<open>e\<close> is the entry \<open>recordCandidate\<close> wrote for it last: a turn at an
  instruction the recorder accepts records the entry for the result of that
  instruction, and any other turn keeps what was recorded.
\<close>

inductive recorded ::
  "Env \<Rightarrow> MalBlkRecord \<times> (nat \<Rightarrow> Coercion) \<times> nat \<times> int \<Rightarrow>
   MalBlkRecord \<times> (nat \<Rightarrow> Coercion) \<times> nat \<times> int \<Rightarrow> nat \<Rightarrow> Coercion \<Rightarrow> bool"
  for env :: Env and s0 :: "MalBlkRecord \<times> (nat \<Rightarrow> Coercion) \<times> nat \<times> int" where
  recorded_new:
    "scanned env s0 (mb, c, i, n) \<Longrightarrow> i < stop mb \<Longrightarrow>
     wideConstructor env mb (getInstrPtr mb i) \<Longrightarrow>
     iteration env (mb, c, i, n) = Inr s' \<Longrightarrow>
     recorded env s0 s' (getArg (getInstrPtr mb i) 0)
       (recordCandidate env mb i (getInstrPtr mb i) c (getArg (getInstrPtr mb i) 0))"
| recorded_kept:
    "recorded env s0 (mb, c, i, n) v e \<Longrightarrow> i < stop mb \<Longrightarrow>
     \<not> (wideConstructor env mb (getInstrPtr mb i) \<and> getArg (getInstrPtr mb i) 0 = v) \<Longrightarrow>
     iteration env (mb, c, i, n) = Inr s' \<Longrightarrow>
     recorded env s0 s' v e"

text \<open>
  The condition of the specification under which operand slot \<open>k\<close> of an arithmetic
  instruction \<open>p\<close> is rewritten in state \<open>s\<close> of the scan, with the proviso on the
  source variable: the operand's base type is the result's base type, a candidate is
  recorded for the operand variable, its recorded source variable is not variable 0,
  and its recorded source type is strictly below the result's base type.
\<close>

definition specNarrowable ::
  "Env \<Rightarrow> MalBlkRecord \<times> (nat \<Rightarrow> Coercion) \<times> nat \<times> int \<Rightarrow>
   MalBlkRecord \<times> (nat \<Rightarrow> Coercion) \<times> nat \<times> int \<Rightarrow> InstrRecord \<Rightarrow> nat \<Rightarrow> bool" where
  "specNarrowable env s0 s p k =
     (getColumnType env (getVarType (fst s) (getArg p k)) =
        getColumnType env (getVarType (fst s) (getArg p 0)) \<and>
      (\<exists>e. recorded env s0 s (getArg p k) e \<and> src e \<noteq> 0 \<and>
           fromtype e < getColumnType env (getVarType (fst s) (getArg p 0))))"

text \<open>The result slots of an instruction: the first \<open>retc\<close> of its argument slots.\<close>

definition resultSlots :: "InstrRecord \<Rightarrow> nat list" where
  "resultSlots q = take (retc q) (argv q)"

section \<open>Unfolding the accessors, and sample data\<close>

named_theorems mal_defs

declare argc_def [mal_defs] stop_def [mal_defs] getArg_def [mal_defs] setArg_def [mal_defs]
  getInstrPtr_def [mal_defs] setInstr_def [mal_defs] getModuleId_def [mal_defs]
  getFunctionId_def [mal_defs] getVarType_def [mal_defs] getArgType_def [mal_defs]
  isVarConstant_def [mal_defs] getVarConstant_ival_def [mal_defs]
  batcalcRef_def [mal_defs] hgeRef_def [mal_defs] plusRef_def [mal_defs]
  minusRef_def [mal_defs] mulRef_def [mal_defs] divRef_def [mal_defs] calcRef_def [mal_defs]
  firstCharIs_def [mal_defs] wideConstructor_def [mal_defs]

text \<open>
  A sample type system on which the functions are evaluated: tag 5 is \<open>int\<close>,
  11 is \<open>lng\<close>, 12 is the wide type \<open>hge\<close>; a column type carries the tag of its
  elements in its low byte.
\<close>

definition exEnv :: Env where
  "exEnv = \<lparr>ATOMname = (\<lambda>t. if t = 5 then ''int'' else if t = 11 then ''lng''
                           else if t = 12 then ''hge'' else ''any''),
            getColumnType = (\<lambda>t. t mod 256),
            HAVE_HGE = True,
            TYPE_hge = 12\<rparr>"

definition mkVar :: "int \<Rightarrow> bool \<Rightarrow> int \<Rightarrow> VarRecord" where
  "mkVar t c v = \<lparr>vartype = t, isconstant = c, ival = v\<rparr>"

definition mkInstr :: "string option \<Rightarrow> string option \<Rightarrow> nat \<Rightarrow> nat list \<Rightarrow> InstrRecord" where
  "mkInstr m f r as = \<lparr>modname = m, fcnname = f, retc = r, argv = as\<rparr>"

text \<open>
  The test of lines 65 and 67 of the source for operand slot \<open>k\<close> of the instruction
  \<open>p\<close>, as \<open>coercionOptimizerCalcStep\<close> writes it: \<open>a == r\<close>, then the source field
  of the entry of the operand variable, then \<open>fromtype < r\<close>.
\<close>

definition slotGuard ::
  "Env \<Rightarrow> MalBlkRecord \<Rightarrow> (nat \<Rightarrow> Coercion) \<Rightarrow> InstrRecord \<Rightarrow> nat \<Rightarrow> bool" where
  "slotGuard env mb coerce p k =
     (getColumnType env (getVarType mb (getArg p k)) =
        getColumnType env (getVarType mb (getArg p 0)) \<and>
      src (coerce (getArg p k)) \<noteq> 0 \<and>
      fromtype (coerce (getArg p k)) < getColumnType env (getVarType mb (getArg p 0)))"

text \<open>
  Variables of the sample blocks: \<open>v1\<close> and \<open>v3\<close> are columns of \<open>lng\<close>, \<open>v2\<close> and
  \<open>v7\<close> columns of the wide type, \<open>v4\<close>, \<open>v5\<close>, \<open>v6\<close> the constants 1, 18 and 2,
  every other variable an \<open>int\<close>.
\<close>

definition exVars :: "nat \<Rightarrow> VarRecord" where
  "exVars = (\<lambda>v. if v = 1 then mkVar 267 False 0
                  else if v = 2 then mkVar 268 False 0
                  else if v = 3 then mkVar 267 False 0
                  else if v = 4 then mkVar 5 True 1
                  else if v = 5 then mkVar 5 True 18
                  else if v = 6 then mkVar 5 True 2
                  else if v = 7 then mkVar 268 False 0
                  else mkVar 5 False 0)"

definition exSig :: InstrRecord where
  "exSig = mkInstr (Some ''user'') (Some ''main'') 1 [0]"

definition exWide :: InstrRecord where
  \<comment> \<open>\<open>v2 := batcalc.hge(v4, v1, v5, v6)\<close>: \<open>v1\<close> widened, 18 digits, scale 2\<close>
  "exWide = mkInstr (Some ''batcalc'') (Some ''hge'') 1 [2, 4, 1, 5, 6]"

definition exBlk0 :: MalBlkRecord where
  \<comment> \<open>\<open>v2 := batcalc.hge(v4, v0, v5, v6)\<close>, the source being variable 0, then
      \<open>v7 := batcalc.+(v2, v2)\<close>\<close>
  "exBlk0 = \<lparr>stmt = [exSig, mkInstr (Some ''batcalc'') (Some ''hge'') 1 [2, 4, 0, 5, 6],
                     mkInstr (Some ''batcalc'') (Some ''+'') 1 [7, 2, 2]],
             var = exVars\<rparr>"

definition exBlk3 :: MalBlkRecord where
  \<comment> \<open>the sum \<open>v3 := batcalc.+(v2, v2)\<close> has the narrow type of \<open>v1\<close>\<close>
  "exBlk3 = \<lparr>stmt = [exSig, exWide, mkInstr (Some ''batcalc'') (Some ''+'') 1 [3, 2, 2]],
             var = exVars\<rparr>"

definition exBlk4 :: MalBlkRecord where
  \<comment> \<open>the sum \<open>v7 := batcalc.+(v2, v2)\<close> has the wide type\<close>
  "exBlk4 = \<lparr>stmt = [exSig, exWide, mkInstr (Some ''batcalc'') (Some ''+'') 1 [7, 2, 2]],
             var = exVars\<rparr>"

definition exBlk6 :: MalBlkRecord where
  \<comment> \<open>\<open>v7 := batcalc.*(v2, v7)\<close>\<close>
  "exBlk6 = \<lparr>stmt = [exSig, exWide, mkInstr (Some ''batcalc'') (Some ''*'') 1 [7, 2, 7]],
             var = exVars\<rparr>"

definition exBlk7 :: MalBlkRecord where
  \<comment> \<open>\<open>(v8, v9) := calc.int()\<close>: two results, no operand\<close>
  "exBlk7 = \<lparr>stmt = [exSig, mkInstr (Some ''calc'') (Some ''int'') 2 [8, 9]],
             var = exVars\<rparr>"

definition exBlk2 :: MalBlkRecord where
  \<comment> \<open>\<open>v9 := calc.int(v8)\<close>, then \<open>v9\<close> assigned again: \<open>v9 := batcalc.+(v2, v9)\<close>\<close>
  "exBlk2 = \<lparr>stmt = [exSig, mkInstr (Some ''calc'') (Some ''int'') 1 [9, 8],
                     mkInstr (Some ''batcalc'') (Some ''+'') 1 [9, 2, 9]],
             var = exVars\<rparr>"

definition exBlk8 :: MalBlkRecord where
  \<comment> \<open>\<open>v9 := calc.int(v8)\<close>, then \<open>v10 := calc.+(v9, v9)\<close>\<close>
  "exBlk8 = \<lparr>stmt = [exSig, mkInstr (Some ''calc'') (Some ''int'') 1 [9, 8],
                     mkInstr (Some ''calc'') (Some ''+'') 1 [10, 9, 9]],
             var = exVars\<rparr>"

definition exBlk9 :: MalBlkRecord where
  \<comment> \<open>\<open>v9 := calc.int(v8)\<close>, \<open>v10 := calc.int(v9)\<close>, then \<open>v11 := calc.+(v10, v9)\<close>\<close>
  "exBlk9 = \<lparr>stmt = [exSig, mkInstr (Some ''calc'') (Some ''int'') 1 [9, 8],
                     mkInstr (Some ''calc'') (Some ''int'') 1 [10, 9],
                     mkInstr (Some ''calc'') (Some ''+'') 1 [11, 10, 9]],
             var = exVars\<rparr>"

lemmas ex_defs = exVars_def exSig_def exWide_def exEnv_def mkVar_def mkInstr_def

lemmas run_defs = OPTcoercionImplementation_def loop.simps iteration_def
  recordCandidate_def coercionOptimizerCalcStep_def coercionOptimizerStep_def
  renameFrom_def removeInstruction_def renameOperands_def zeroCoercion_def Let_def

section \<open>Notions used in the proofs\<close>

text \<open>
  What \<open>coercionOptimizerCalcStep\<close> makes of the instruction it is pointed at, the
  guard of its rewrites, and the test under which \<open>coercionOptimizerStep\<close>, called by
  the driver, removes an instruction. They restate parts of the functions above;
  lemmas \<open>calcStep_narrowInstr\<close> and \<open>iteration_cases\<close> tie them to the functions.
\<close>

definition arithGuard :: "InstrRecord \<Rightarrow> bool" where
  "arithGuard p =
     (getModuleId p = batcalcRef \<and> getFunctionId p \<noteq> None \<and>
      (getFunctionId p = plusRef \<or> getFunctionId p = minusRef \<or>
       getFunctionId p = mulRef \<or> getFunctionId p = divRef \<or>
       firstCharIs (getFunctionId p) (CHR ''%'')) \<and> argc p = 3)"

definition narrowInstr ::
  "Env \<Rightarrow> MalBlkRecord \<Rightarrow> InstrRecord \<Rightarrow> (nat \<Rightarrow> Coercion) \<Rightarrow> InstrRecord" where
  "narrowInstr env mb p coerce =
     (if getModuleId p \<noteq> batcalcRef \<or> getFunctionId p = None then p
      else if \<not> (getFunctionId p = plusRef \<or> getFunctionId p = minusRef \<or>
                 getFunctionId p = mulRef \<or> getFunctionId p = divRef \<or>
                 firstCharIs (getFunctionId p) (CHR ''%'')) \<or> argc p \<noteq> 3
      then p
      else
        let r = getColumnType env (getVarType mb (getArg p 0));
            a = getColumnType env (getVarType mb (getArg p 1));
            b = getColumnType env (getVarType mb (getArg p 2));
            p1 = (if a = r \<and> src (coerce (getArg p 1)) \<noteq> 0 \<and>
                     fromtype (coerce (getArg p 1)) < r
                  then setArg p 1 (src (coerce (getArg p 1))) else p);
            p2 = (if b = r \<and> src (coerce (getArg p1 2)) \<noteq> 0 \<and>
                     fromtype (coerce (getArg p1 2)) < r
                  then setArg p1 2 (src (coerce (getArg p1 2))) else p1)
        in p2)"

definition removes :: "Env \<Rightarrow> MalBlkRecord \<Rightarrow> InstrRecord \<Rightarrow> bool" where
  "removes env mb p =
     (getModuleId p = calcRef \<and> argc p = 2 \<and>
      getVarType mb (getArg p 0) = getVarType mb (getArg p 1) \<and>
      getFunctionId p = Some (ATOMname env (getVarType mb (getArg p 1))))"

text \<open>
  A candidate table is sound when every recorded source type is the base type of the
  recorded source variable.
\<close>

definition tableSound :: "Env \<Rightarrow> MalBlkRecord \<Rightarrow> (nat \<Rightarrow> Coercion) \<Rightarrow> bool" where
  "tableSound env mb c =
     (\<forall>v. src (c v) \<noteq> 0 \<longrightarrow>
          fromtype (c v) = getColumnType env (getVarType mb (src (c v))))"

text \<open>
  \<open>v\<close> is the result of an instruction of the shape of the wide constructor (module
  \<open>batcalc\<close>, function \<open>hge\<close>, one result, five argument slots), whether or not
  its precision and scale are constants.
\<close>

definition wideShapeResult :: "InstrRecord \<Rightarrow> nat \<Rightarrow> bool" where
  "wideShapeResult p v =
     (getModuleId p = batcalcRef \<and> getFunctionId p = hgeRef \<and> retc p = 1 \<and> argc p = 5 \<and>
      getArg p 0 = v)"

definition exTable6 :: "nat \<Rightarrow> Coercion" where
  \<comment> \<open>the table after the scan has passed \<open>exWide\<close>\<close>
  "exTable6 = (\<lambda>v. zeroCoercion)
     (2 := \<lparr>pc = 1, fromtype = 11, totype = 12, src = 1, digits = 18, scale = 2\<rparr>)"

definition exTable0 :: "nat \<Rightarrow> Coercion" where
  \<comment> \<open>the table after the scan of \<open>exBlk0\<close> has passed the constructor\<close>
  "exTable0 = (\<lambda>v. zeroCoercion)
     (2 := \<lparr>pc = 1, fromtype = 5, totype = 12, src = 0, digits = 18, scale = 2\<rparr>)"

text \<open>
  Every instruction the rewriter acts on has at most one result, so that the slots
  1 and 2 it writes are operand slots (one result, two operands).
\<close>

definition oneResultArith :: "MalBlkRecord \<Rightarrow> bool" where
  "oneResultArith mb = (\<forall>q\<in>set (stmt mb). arithGuard q \<longrightarrow> retc q \<le> 1)"

text \<open>The operand slots of an instruction: its argument slots from \<open>retc\<close> on.\<close>

definition operandSlots :: "InstrRecord \<Rightarrow> nat list" where
  "operandSlots q = drop (retc q) (argv q)"

text \<open>
  The variable \<open>a\<close> is cleared from index \<open>i\<close> on: it is in no result slot of the
  program, in no operand slot of an instruction from index \<open>i\<close> on, and the source
  of no entry of the table.
\<close>

definition cleared ::
  "nat \<Rightarrow> nat \<Rightarrow> MalBlkRecord \<Rightarrow> (nat \<Rightarrow> Coercion) \<Rightarrow> bool" where
  "cleared a i mb c =
     (oneResultArith mb \<and>
      (\<forall>q\<in>set (stmt mb). a \<notin> set (resultSlots q)) \<and>
      (\<forall>q\<in>set (drop i (stmt mb)). a \<notin> set (operandSlots q)) \<and>
      (\<forall>v. src (c v) \<noteq> a))"

text \<open>\<open>exBlk9\<close> after the first cast is removed, and after the second.\<close>

definition exBlk9a :: MalBlkRecord where
  "exBlk9a = \<lparr>stmt = [exSig, mkInstr (Some ''calc'') (Some ''int'') 1 [10, 8],
                      mkInstr (Some ''calc'') (Some ''+'') 1 [11, 10, 8]],
              var = exVars\<rparr>"

definition exBlk9b :: MalBlkRecord where
  "exBlk9b = \<lparr>stmt = [exSig, mkInstr (Some ''calc'') (Some ''+'') 1 [11, 8, 8]],
              var = exVars\<rparr>"

section \<open>The loop of the driver\<close>

lemma loop_turn:
  "i < stop mb \<Longrightarrow> iteration env (mb, c, i, n) = Inr s' \<Longrightarrow>
   loop env (mb, c, i, n) = loop env s'"
  by (simp add: loop.simps [of env "(mb, c, i, n)"])

lemma loop_exit: "\<not> i < stop mb \<Longrightarrow> loop env (mb, c, i, n) = Inr (mb, n)"
  by (simp add: loop.simps [of env "(mb, c, i, n)"])

lemma loop_error:
  "i < stop mb \<Longrightarrow> iteration env (mb, c, i, n) = Inl e \<Longrightarrow> loop env (mb, c, i, n) = Inl e"
  by (simp add: loop.simps [of env "(mb, c, i, n)"])

lemma loop_induct [case_names turn]:
  assumes "\<And>mb c i n. (\<And>s'. i < stop mb \<Longrightarrow> iteration env (mb, c, i, n) = Inr s' \<Longrightarrow> P s')
             \<Longrightarrow> P (mb, c, i, n)"
  shows "P s"
proof -
  have "e = env \<Longrightarrow> P s" for e
  proof (induction e s rule: loop.induct)
    case (1 e s)
    obtain mb c i n where s: "s = (mb, c, i, n)" by (cases s) auto
    show ?case unfolding s
    proof (rule assms)
      fix s' assume "i < stop mb" "iteration env (mb, c, i, n) = Inr s'"
      then show "P s'"
        using "1.IH" [of mb "(c, i, n)" c "(i, n)" i n s'] s "1.prems" by simp
    qed
  qed
  then show ?thesis by simp
qed

lemma step_removed:
  assumes "coercionOptimizerStep env mb i p = Inr (mb', k)" and "k \<noteq> 0"
  shows "mb' = renameFrom (getArg p 0) (getArg p 1) i (removeInstruction mb i)"
    and "k = 1"
    and "getVarType mb (getArg p 0) = getVarType mb (getArg p 1)"
    and "getFunctionId p = Some (ATOMname env (getVarType mb (getArg p 1)))"
  using assms
  by (auto simp: coercionOptimizerStep_def Let_def split: if_splits option.splits)

lemma step_kept:
  assumes "coercionOptimizerStep env mb i p = Inr (mb', k)" and "k = 0"
  shows "mb' = mb"
  using assms
  by (auto simp: coercionOptimizerStep_def Let_def split: if_splits option.splits)

section \<open>Allocation failure\<close>

text \<open>
  Claim C5. Whatever the program, when the allocation of the table of narrowing
  candidates fails the pass returns 0 and the program it was given, unmodified.
\<close>

theorem alloc_failure_unmodified:
  "OPTcoercionImplementation env False mb = Inr (mb, 0)"
  by (simp add: OPTcoercionImplementation_def)

section \<open>Lists of three slots\<close>

lemma list3: "length xs = 3 \<Longrightarrow> xs = [xs ! 0, xs ! 1, xs ! 2]"
  by (cases xs; simp; cases "tl xs"; simp; cases "tl (tl xs)"; auto)

section \<open>A wide constructor followed by an addition\<close>

text \<open>
  Claim C3, as the code has it. The program is a signature, the constructor
  \<open>w := batcalc.hge(s, x, d, sc)\<close> and the sum \<open>r := batcalc.+(w, w)\<close>, where \<open>w\<close> has
  the wide base type, \<open>x\<close> a base type \<open>T\<close> below it and the result \<open>r\<close> the base
  type \<open>T\<close>. The pass leaves the program as it is and returns 0: the operand \<open>w\<close>
  has not the base type of the result, which the rewriter requires first. (The claim
  expects \<open>r := batcalc.+(x, x)\<close>.)
\<close>

theorem narrow_result_blocks_rewrite:
  assumes "stmt mb = [h, mkInstr batcalcRef hgeRef 1 [w, s, x, d, sc],
                       mkInstr batcalcRef plusRef 1 [r, w, w]]"
    and "getColumnType env (getVarType mb w) = TYPE_hge env"
    and "getColumnType env (getVarType mb r) = getColumnType env (getVarType mb x)"
    and "getColumnType env (getVarType mb x) < TYPE_hge env"
  shows "OPTcoercionImplementation env alloc mb = Inr (mb, 0)"
proof (cases alloc)
  case False
  then show ?thesis by (simp add: OPTcoercionImplementation_def)
next
  case True
  let ?c1 = "recordCandidate env mb 1 (getInstrPtr mb 1) (\<lambda>v. zeroCoercion)"
  have mb: "mb\<lparr>stmt := [h, mkInstr batcalcRef hgeRef 1 [w, s, x, d, sc],
                       mkInstr batcalcRef plusRef 1 [r, w, w]]\<rparr> = mb"
    using assms(1) by simp
  have t1: "iteration env (mb, (\<lambda>v. zeroCoercion), 1, 0) = Inr (mb, ?c1, 2, 0)"
    using assms(1) mb
    by (simp add: iteration_def coercionOptimizerCalcStep_def mkInstr_def Let_def mal_defs)
  have c2: "recordCandidate env mb 2 (getInstrPtr mb 2) ?c1 = ?c1"
    using assms(1) by (simp add: recordCandidate_def mkInstr_def mal_defs)
  have t2: "iteration env (mb, ?c1, 2, 0) = Inr (mb, ?c1, 3, 0)"
    unfolding iteration_def prod.case c2 Let_def
    using assms mb
    by (simp add: coercionOptimizerCalcStep_def mkInstr_def Let_def mal_defs)
  have "loop env (mb, (\<lambda>v. zeroCoercion), 1, 0) = loop env (mb, ?c1, 2, 0)"
    using t1 assms(1) by (intro loop_turn) (simp_all add: stop_def)
  also have "\<dots> = loop env (mb, ?c1, 3, 0)"
    using t2 assms(1) by (intro loop_turn) (simp_all add: stop_def)
  also have "\<dots> = Inr (mb, 0)"
    using assms(1) by (intro loop_exit) (simp add: stop_def)
  finally show ?thesis
    using True by (simp add: OPTcoercionImplementation_def)
qed

theorem narrow_result_blocks_rewrite_witness:
  "stmt exBlk3 = [exSig, mkInstr batcalcRef hgeRef 1 [2, 4, 1, 5, 6],
                         mkInstr batcalcRef plusRef 1 [3, 2, 2]] \<and>
   getColumnType exEnv (getVarType exBlk3 2) = TYPE_hge exEnv \<and>
   getColumnType exEnv (getVarType exBlk3 3) = getColumnType exEnv (getVarType exBlk3 1) \<and>
   getColumnType exEnv (getVarType exBlk3 1) < TYPE_hge exEnv \<and>
   OPTcoercionImplementation exEnv True exBlk3 = Inr (exBlk3, 0)"
proof -
  have h: "stmt exBlk3 = [exSig, mkInstr batcalcRef hgeRef 1 [2, 4, 1, 5, 6],
                         mkInstr batcalcRef plusRef 1 [3, 2, 2]]"
    "getColumnType exEnv (getVarType exBlk3 2) = TYPE_hge exEnv"
    "getColumnType exEnv (getVarType exBlk3 3) = getColumnType exEnv (getVarType exBlk3 1)"
    "getColumnType exEnv (getVarType exBlk3 1) < TYPE_hge exEnv"
    by (simp_all add: exBlk3_def ex_defs mal_defs)
  show ?thesis
    using h narrow_result_blocks_rewrite [OF h, of True] by simp
qed

text \<open>
  The claim as it was stated fails on \<open>exBlk3\<close>, where \<open>v1\<close> is a column of \<open>lng\<close>,
  \<open>v2\<close> its widening and the sum \<open>v3\<close> a column of \<open>lng\<close>: after the pass the
  operands of the sum are still \<open>v2\<close> and \<open>v2\<close>, not \<open>v1\<close> and \<open>v1\<close>.
\<close>

theorem narrow_result_counterexample:
  "getColumnType exEnv (getVarType exBlk3 3) = getColumnType exEnv (getVarType exBlk3 1) \<and>
   getColumnType exEnv (getVarType exBlk3 3) \<noteq> TYPE_hge exEnv \<and>
   OPTcoercionImplementation exEnv True exBlk3 =
     Inr (\<lparr>stmt = [exSig, exWide, mkInstr (Some ''batcalc'') (Some ''+'') 1 [3, 2, 2]],
           var = exVars\<rparr>, 0) \<and>
   mkInstr (Some ''batcalc'') (Some ''+'') 1 [3, 2, 2] \<noteq>
   mkInstr (Some ''batcalc'') (Some ''+'') 1 [3, 1, 1]"
  by (simp add: exBlk3_def ex_defs run_defs mal_defs)

text \<open>
  Claim C4, as the code has it. In the same program, but with the result \<open>r\<close> of
  the wide base type, the pass rewrites both operand slots of the sum to \<open>x\<close> and
  leaves the constructor in place, provided the build has the wide type, precision
  and scale are constants, \<open>x\<close> is not variable 0 and the base type of \<open>x\<close> is below
  the wide type. It returns 0. (The claim expects no rewrite.)
\<close>

theorem wide_result_rewrites_both:
  assumes "HAVE_HGE env"
    and "stmt mb = [h, mkInstr batcalcRef hgeRef 1 [w, s, x, d, sc],
                       mkInstr batcalcRef plusRef 1 [r, w, w]]"
    and "isVarConstant mb d" and "isVarConstant mb sc"
    and "x \<noteq> 0"
    and "getColumnType env (getVarType mb w) = TYPE_hge env"
    and "getColumnType env (getVarType mb r) = TYPE_hge env"
    and "getColumnType env (getVarType mb x) < TYPE_hge env"
  shows "OPTcoercionImplementation env True mb =
         Inr (mb\<lparr>stmt := [h, mkInstr batcalcRef hgeRef 1 [w, s, x, d, sc],
                             mkInstr batcalcRef plusRef 1 [r, x, x]]\<rparr>, 0)"
proof -
  let ?c1 = "recordCandidate env mb 1 (getInstrPtr mb 1) (\<lambda>v. zeroCoercion)"
  let ?mb2 = "mb\<lparr>stmt := [h, mkInstr batcalcRef hgeRef 1 [w, s, x, d, sc],
                             mkInstr batcalcRef plusRef 1 [r, x, x]]\<rparr>"
  have mb: "mb\<lparr>stmt := [h, mkInstr batcalcRef hgeRef 1 [w, s, x, d, sc],
                       mkInstr batcalcRef plusRef 1 [r, w, w]]\<rparr> = mb"
    using assms(2) by simp
  have c1: "src (?c1 w) = x" "fromtype (?c1 w) = getColumnType env (getVarType mb x)"
    using assms(1-4) by (simp_all add: recordCandidate_def mkInstr_def mal_defs)
  have t1: "iteration env (mb, (\<lambda>v. zeroCoercion), 1, 0) = Inr (mb, ?c1, 2, 0)"
    using assms(2) mb
    by (simp add: iteration_def coercionOptimizerCalcStep_def mkInstr_def Let_def mal_defs)
  have c2: "recordCandidate env mb 2 (getInstrPtr mb 2) ?c1 = ?c1"
    using assms(2) by (simp add: recordCandidate_def mkInstr_def mal_defs)
  have t2: "iteration env (mb, ?c1, 2, 0) = Inr (?mb2, ?c1, 3, 0)"
    unfolding iteration_def prod.case c2 Let_def
    using assms(2,5-8) c1
    by (simp add: coercionOptimizerCalcStep_def mkInstr_def Let_def mal_defs)
  have "loop env (mb, (\<lambda>v. zeroCoercion), 1, 0) = loop env (mb, ?c1, 2, 0)"
    using t1 assms(2) by (intro loop_turn) (simp_all add: stop_def)
  also have "\<dots> = loop env (?mb2, ?c1, 3, 0)"
    using t2 assms(2) by (intro loop_turn) (simp_all add: stop_def)
  also have "\<dots> = Inr (?mb2, 0)"
    by (intro loop_exit) (simp add: stop_def)
  finally show ?thesis
    by (simp add: OPTcoercionImplementation_def)
qed

theorem wide_result_rewrites_both_witness:
  "HAVE_HGE exEnv \<and>
   stmt exBlk4 = [exSig, mkInstr batcalcRef hgeRef 1 [2, 4, 1, 5, 6],
                         mkInstr batcalcRef plusRef 1 [7, 2, 2]] \<and>
   isVarConstant exBlk4 5 \<and> isVarConstant exBlk4 6 \<and>
   getColumnType exEnv (getVarType exBlk4 2) = TYPE_hge exEnv \<and>
   getColumnType exEnv (getVarType exBlk4 7) = TYPE_hge exEnv \<and>
   getColumnType exEnv (getVarType exBlk4 1) < TYPE_hge exEnv \<and>
   OPTcoercionImplementation exEnv True exBlk4 =
     Inr (exBlk4\<lparr>stmt := [exSig, mkInstr batcalcRef hgeRef 1 [2, 4, 1, 5, 6],
                                 mkInstr batcalcRef plusRef 1 [7, 1, 1]]\<rparr>, 0)"
proof -
  have h: "HAVE_HGE exEnv"
    "stmt exBlk4 = [exSig, mkInstr batcalcRef hgeRef 1 [2, 4, 1, 5, 6],
                         mkInstr batcalcRef plusRef 1 [7, 2, 2]]"
    "isVarConstant exBlk4 5" "isVarConstant exBlk4 6" "(1::nat) \<noteq> 0"
    "getColumnType exEnv (getVarType exBlk4 2) = TYPE_hge exEnv"
    "getColumnType exEnv (getVarType exBlk4 7) = TYPE_hge exEnv"
    "getColumnType exEnv (getVarType exBlk4 1) < TYPE_hge exEnv"
    by (simp_all add: exBlk4_def ex_defs mal_defs)
  show ?thesis
    using h wide_result_rewrites_both [OF h] by simp
qed

text \<open>
  The claim as it was stated fails on \<open>exBlk4\<close>, where the sum \<open>v7\<close> is a column of
  the wide type: the pass turns \<open>v7 := batcalc.+(v2, v2)\<close> into
  \<open>v7 := batcalc.+(v1, v1)\<close>.
\<close>

theorem wide_result_counterexample:
  "getColumnType exEnv (getVarType exBlk4 7) = TYPE_hge exEnv \<and>
   getInstrPtr exBlk4 2 = mkInstr (Some ''batcalc'') (Some ''+'') 1 [7, 2, 2] \<and>
   OPTcoercionImplementation exEnv True exBlk4 =
     Inr (\<lparr>stmt = [exSig, exWide, mkInstr (Some ''batcalc'') (Some ''+'') 1 [7, 1, 1]],
           var = exVars\<rparr>, 0)"
  by (simp add: exBlk4_def ex_defs run_defs mal_defs)

section \<open>The returned count\<close>

lemma iteration_count:
  assumes "i < stop mb" and "iteration env (mb, c, i, n) = Inr (mb2, c2, i2, n2)"
  shows "n2 + int (stop mb2) = n + int (stop mb)"
proof -
  let ?mb1 = "coercionOptimizerCalcStep env mb i (recordCandidate env mb i (getInstrPtr mb i) c)"
  have s: "\<And>p k. coercionOptimizerStep env ?mb1 i p = Inr (mb2, k) \<Longrightarrow>
             k + int (stop mb2) = int (stop mb)"
    using step_stop [of env ?mb1 i _ mb2] step_removed(2) [of env ?mb1 i _ mb2] assms(1)
    by (metis add_0 of_nat_Suc stop_calcStep)
  show ?thesis
    using assms(2) s
    by (auto simp: iteration_def Let_def split: if_splits sum.splits)
qed

lemma loop_count:
  "loop env s = Inr (mb', n') \<Longrightarrow>
   n' + int (stop mb') = snd (snd (snd s)) + int (stop (fst s))"
proof (induction s rule: loop_induct [where env = env])
  case (turn mb c i n)
  show ?case
  proof (cases "i < stop mb")
    case False
    then show ?thesis using turn.prems by (simp add: loop_exit)
  next
    case True
    show ?thesis
    proof (cases "iteration env (mb, c, i, n)")
      case (Inl e)
      then show ?thesis using turn.prems True by (simp add: loop_error)
    next
      case (Inr s')
      obtain mb2 c2 i2 n2 where s': "s' = (mb2, c2, i2, n2)" by (cases s') auto
      have "loop env s' = Inr (mb', n')"
        using turn.prems loop_turn [OF True Inr] by simp
      then have "n' + int (stop mb') = n2 + int (stop mb2)"
        using turn.IH [OF True Inr] s' by simp
      then show ?thesis
        using iteration_count [OF True Inr [unfolded s']] by simp
    qed
  qed
qed

text \<open>
  Claim C6, as the code has it. The integer the pass returns is the number of
  instructions it removed, that is, the number of identity coercions eliminated:
  the length of the program before minus its length after. It is 0 when nothing was
  removed or the table could not be allocated. The operand rewrites of
  \<open>coercionOptimizerCalcStep\<close> are not counted.
\<close>

theorem returned_count_is_removals:
  assumes "OPTcoercionImplementation env alloc mb = Inr (mb', n)"
  shows "n = int (stop mb) - int (stop mb')"
  using assms loop_count [of env "(mb, (\<lambda>v. zeroCoercion), 1, 0)" mb' n]
  by (auto simp: OPTcoercionImplementation_def split: if_splits)

theorem returned_count_is_removals_witness:
  "OPTcoercionImplementation exEnv True exBlk8 =
     Inr (exBlk8\<lparr>stmt := [exSig, mkInstr (Some ''calc'') (Some ''+'') 1 [10, 8, 8]]\<rparr>, 1) \<and>
   (1::int) = int (stop exBlk8) -
     int (stop (exBlk8\<lparr>stmt := [exSig, mkInstr (Some ''calc'') (Some ''+'') 1 [10, 8, 8]]\<rparr>))"
proof -
  have h: "OPTcoercionImplementation exEnv True exBlk8 =
     Inr (exBlk8\<lparr>stmt := [exSig, mkInstr (Some ''calc'') (Some ''+'') 1 [10, 8, 8]]\<rparr>, 1)"
    by (simp add: exBlk8_def ex_defs run_defs mal_defs)
  show ?thesis
    using h returned_count_is_removals [OF h] by simp
qed

text \<open>
  The claim as it was stated fails on \<open>exBlk6\<close>: the pass rewrites operand slot 1 of
  \<open>v7 := batcalc.*(v2, v7)\<close> from \<open>v2\<close> to \<open>v1\<close> and returns 0.
\<close>

theorem narrowing_not_counted_counterexample:
  "getInstrPtr exBlk6 2 = mkInstr (Some ''batcalc'') (Some ''*'') 1 [7, 2, 7] \<and>
   OPTcoercionImplementation exEnv True exBlk6 =
     Inr (\<lparr>stmt = [exSig, exWide, mkInstr (Some ''batcalc'') (Some ''*'') 1 [7, 1, 7]],
           var = exVars\<rparr>, 0)"
  by (simp add: exBlk6_def ex_defs run_defs mal_defs)

section \<open>The shape the eliminator requires\<close>

text \<open>
  Claim C7. The driver hands an instruction of module \<open>calc\<close> to the eliminator when
  it has two argument slots; the number of result slots is not looked at. On
  \<open>exBlk7\<close> the instruction \<open>(v8, v9) := calc.int()\<close>, with two results and no
  operand, is removed and counted, where the claim has it skipped.
\<close>

theorem two_results_removed:
  "retc (getInstrPtr exBlk7 1) = 2 \<and> argc (getInstrPtr exBlk7 1) = 2 \<and>
   OPTcoercionImplementation exEnv True exBlk7 = Inr (\<lparr>stmt = [exSig], var = exVars\<rparr>, 1)"
  by (simp add: exBlk7_def ex_defs run_defs mal_defs)

section \<open>The eliminator\<close>

lemma stmt_removed_renamed:
  "i < stop mb \<Longrightarrow>
   stmt (renameFrom a b i (removeInstruction mb i)) =
   take i (stmt mb) @ map (renameOperands a b) (drop (Suc i) (stmt mb))"
  by (simp add: renameFrom_def removeInstruction_def stop_def min_def)

lemma var_removed_renamed [simp]:
  "var (renameFrom a b i (removeInstruction mb i)) = var mb"
  by (simp add: renameFrom_def removeInstruction_def)

lemma nth_removed_renamed:
  assumes "i < stop mb" and "Suc j < stop mb"
  shows "getInstrPtr (renameFrom a b i (removeInstruction mb i)) j =
         (if j < i then getInstrPtr mb j else renameOperands a b (getInstrPtr mb (Suc j)))"
  using assms
  by (auto simp: stmt_removed_renamed getInstrPtr_def nth_append stop_def min_def Suc_diff_le)

lemma renameOperands_fields [simp]:
  "modname (renameOperands a b q) = modname q"
  "fcnname (renameOperands a b q) = fcnname q"
  "retc (renameOperands a b q) = retc q"
  "argc (renameOperands a b q) = argc q"
  by (simp_all add: renameOperands_def argc_def)

lemma renameOperands_arg:
  "k < argc q \<Longrightarrow>
   getArg (renameOperands a b q) k = (if retc q \<le> k \<and> getArg q k = a then b else getArg q k)"
  by (auto simp: renameOperands_def getArg_def argc_def nth_append)

text \<open>
  One removal. When \<open>coercionOptimizerStep\<close> removes the instruction \<open>p\<close> at index
  \<open>i\<close> (slot 0 holding \<open>a\<close>, slot 1 holding \<open>b\<close>), the program is one instruction
  shorter, the instructions before index \<open>i\<close> are unchanged, and the instruction at
  each index \<open>j\<close> from \<open>i\<close> on is the former instruction \<open>j + 1\<close> with its module,
  function, \<open>retc\<close>, \<open>argc\<close> and result slots kept and every operand slot that held
  \<open>a\<close> now holding \<open>b\<close>.
\<close>

lemma step_removal_effect:
  assumes "i < stop mb" and "getInstrPtr mb i = p"
    and "coercionOptimizerStep env mb i p = Inr (mb', k)" and "k \<noteq> 0"
  shows "Suc (stop mb') = stop mb \<and> var mb' = var mb \<and>
    (\<forall>j<i. getInstrPtr mb' j = getInstrPtr mb j) \<and>
    (\<forall>j. i \<le> j \<and> j < stop mb' \<longrightarrow>
       getModuleId (getInstrPtr mb' j) = getModuleId (getInstrPtr mb (Suc j)) \<and>
       getFunctionId (getInstrPtr mb' j) = getFunctionId (getInstrPtr mb (Suc j)) \<and>
       retc (getInstrPtr mb' j) = retc (getInstrPtr mb (Suc j)) \<and>
       argc (getInstrPtr mb' j) = argc (getInstrPtr mb (Suc j)) \<and>
       (\<forall>k<argc (getInstrPtr mb (Suc j)).
          getArg (getInstrPtr mb' j) k =
            (if retc (getInstrPtr mb (Suc j)) \<le> k \<and>
                getArg (getInstrPtr mb (Suc j)) k = getArg p 0
             then getArg p 1 else getArg (getInstrPtr mb (Suc j)) k))) \<and>
    ((\<forall>j<stop mb. j \<noteq> i \<longrightarrow>
        (\<forall>k<argc (getInstrPtr mb j). k < retc (getInstrPtr mb j) \<longrightarrow>
           getArg (getInstrPtr mb j) k \<noteq> getArg p 0)) \<longrightarrow>
     (\<forall>j<stop mb'. \<forall>k<argc (getInstrPtr mb' j). k < retc (getInstrPtr mb' j) \<longrightarrow>
        getArg (getInstrPtr mb' j) k \<noteq> getArg p 0))"
proof -
  let ?a = "getArg p 0" and ?b = "getArg p 1"
  have mb': "mb' = renameFrom ?a ?b i (removeInstruction mb i)"
    using step_removed(1) [OF assms(3,4)] .
  have len: "Suc (stop mb') = stop mb"
    using step_stop [OF assms(3,1)] assms(4) by simp
  have nth: "getInstrPtr mb' j =
       (if j < i then getInstrPtr mb j else renameOperands ?a ?b (getInstrPtr mb (Suc j)))"
    if "j < stop mb'" for j
    unfolding mb' using nth_removed_renamed [OF assms(1), of j ?a ?b] that len by simp
  have before: "\<forall>j<i. getInstrPtr mb' j = getInstrPtr mb j"
    using nth assms(1) len by auto
  have after: "\<forall>j. i \<le> j \<and> j < stop mb' \<longrightarrow>
       getModuleId (getInstrPtr mb' j) = getModuleId (getInstrPtr mb (Suc j)) \<and>
       getFunctionId (getInstrPtr mb' j) = getFunctionId (getInstrPtr mb (Suc j)) \<and>
       retc (getInstrPtr mb' j) = retc (getInstrPtr mb (Suc j)) \<and>
       argc (getInstrPtr mb' j) = argc (getInstrPtr mb (Suc j)) \<and>
       (\<forall>k<argc (getInstrPtr mb (Suc j)).
          getArg (getInstrPtr mb' j) k =
            (if retc (getInstrPtr mb (Suc j)) \<le> k \<and>
                getArg (getInstrPtr mb (Suc j)) k = ?a
             then ?b else getArg (getInstrPtr mb (Suc j)) k))"
    using nth by (simp add: renameOperands_arg getModuleId_def getFunctionId_def)
  have results: "\<forall>j<stop mb'. \<forall>k<argc (getInstrPtr mb' j). k < retc (getInstrPtr mb' j) \<longrightarrow>
        getArg (getInstrPtr mb' j) k \<noteq> ?a"
    if h: "\<forall>j<stop mb. j \<noteq> i \<longrightarrow>
        (\<forall>k<argc (getInstrPtr mb j). k < retc (getInstrPtr mb j) \<longrightarrow>
           getArg (getInstrPtr mb j) k \<noteq> ?a)"
  proof (intro allI impI)
    fix j k
    assume j: "j < stop mb'" and k: "k < argc (getInstrPtr mb' j)" "k < retc (getInstrPtr mb' j)"
    show "getArg (getInstrPtr mb' j) k \<noteq> ?a"
    proof (cases "j < i")
      case True
      then show ?thesis using h j k len nth [OF j] by simp
    next
      case False
      then have "Suc j < stop mb" "Suc j \<noteq> i" using j len by auto
      then show ?thesis
        using h False k nth [OF j] by (simp add: renameOperands_arg)
    qed
  qed
  show ?thesis
    using len before after results unfolding mb' by simp
qed

text \<open>
  A variable assigned twice stays in a result slot: on \<open>exBlk2\<close> the pass removes
  \<open>v9 := calc.int(v8)\<close>, and \<open>v9\<close> is still the result of the instruction that
  follows. Result slots are never rewritten.
\<close>

lemma double_assignment_example:
  "getInstrPtr exBlk2 1 = mkInstr (Some ''calc'') (Some ''int'') 1 [9, 8] \<and>
   OPTcoercionImplementation exEnv True exBlk2 =
     Inr (\<lparr>stmt = [exSig, mkInstr (Some ''batcalc'') (Some ''+'') 1 [9, 2, 8]],
           var = exVars\<rparr>, 1) \<and>
   retc (mkInstr (Some ''batcalc'') (Some ''+'') 1 [9, 2, 8]) = 1 \<and>
   getArg (mkInstr (Some ''batcalc'') (Some ''+'') 1 [9, 2, 8]) 0 = 9"
  by (simp add: exBlk2_def ex_defs run_defs mal_defs)

section \<open>Chained identity coercions\<close>

lemma step_identity:
  assumes "i < stop mb" and "getInstrPtr mb i = mkInstr calcRef (Some f) 1 [a, b]"
    and "getVarType mb a = getVarType mb b" and "f = ATOMname env (getVarType mb b)"
  shows "iteration env (mb, c, i, n) =
         Inr (renameFrom a b i (removeInstruction mb i), c, i, n + 1)"
proof -
  have r: "recordCandidate env mb i (getInstrPtr mb i) c = c"
    using assms(2) by (simp add: recordCandidate_def mkInstr_def mal_defs)
  have s: "coercionOptimizerCalcStep env mb i c = mb"
    using assms(2) by (simp add: coercionOptimizerCalcStep_def mkInstr_def mal_defs)
  show ?thesis
    unfolding iteration_def prod.case r Let_def s
    using assms(2,3,4)
    by (simp add: coercionOptimizerStep_def mkInstr_def getModuleId_def calcRef_def argc_def
        getArg_def getFunctionId_def)
qed

lemma removed_renamed_at:
  assumes "stmt mb = pre @ p # rest"
  shows "renameFrom a b (length pre) (removeInstruction mb (length pre)) =
         mb\<lparr>stmt := pre @ map (renameOperands a b) rest\<rparr>"
  using assms by (simp add: renameFrom_def removeInstruction_def)

lemma renamed_operand_free:
  assumes "a \<noteq> b" and "k < argc q" and "retc q \<le> k"
  shows "getArg (renameOperands a b q) k \<noteq> a"
  using assms by (simp add: renameOperands_arg)

lemma loop_shift:
  "loop env (mb, c, i, n + d) = map_sum id (apsnd (\<lambda>k. k + d)) (loop env (mb, c, i, n))"
proof -
  have "\<forall>d. loop env (fst s, fst (snd s), fst (snd (snd s)), snd (snd (snd s)) + d) =
        map_sum id (apsnd (\<lambda>k. k + d)) (loop env s)" for s
  proof (induction s rule: loop_induct [where env = env])
    case (turn mb c i n)
    show ?case
    proof (cases "i < stop mb")
      case False
      then show ?thesis by (simp add: loop_exit)
    next
      case True
      show ?thesis
      proof (cases "iteration env (mb, c, i, n)")
        case (Inl e)
        then have "iteration env (mb, c, i, n + d) = Inl e" for d
          by (auto simp: iteration_def Let_def split: if_splits sum.splits)
        then show ?thesis using Inl True by (simp add: loop_error)
      next
        case (Inr s')
        obtain mb2 c2 i2 n2 where s': "s' = (mb2, c2, i2, n2)" by (cases s') auto
        have "iteration env (mb, c, i, n + d) = Inr (mb2, c2, i2, n2 + d)" for d
          using Inr unfolding s'
          by (auto simp: iteration_def Let_def split: if_splits sum.splits)
        then show ?thesis
          using turn.IH [OF True Inr] True Inr s' by (simp add: loop_turn)
      qed
    qed
  qed
  then show ?thesis by (metis fst_conv snd_conv)
qed

lemma chain_turns:
  assumes "stmt mb = pre @ mkInstr calcRef (Some f) 1 [y, x] #
                           mkInstr calcRef (Some f) 1 [z, y] # rest"
    and "getVarType mb y = getVarType mb x" and "getVarType mb z = getVarType mb x"
    and "f = ATOMname env (getVarType mb x)"
  shows "loop env (mb, c, length pre, n) =
         loop env (mb\<lparr>stmt := pre @ map (renameOperands z x) (map (renameOperands y x) rest)\<rparr>,
                   c, length pre, n + 2)"
proof -
  let ?i = "length pre"
  let ?rest1 = "map (renameOperands y x) rest"
  let ?mb1 = "mb\<lparr>stmt := pre @ mkInstr calcRef (Some f) 1 [z, x] # ?rest1\<rparr>"
  let ?mb2 = "mb\<lparr>stmt := pre @ map (renameOperands z x) ?rest1\<rparr>"
  have i: "?i < stop mb" "getInstrPtr mb ?i = mkInstr calcRef (Some f) 1 [y, x]"
    using assms(1) by (simp_all add: stop_def getInstrPtr_def)
  have r1: "renameFrom y x ?i (removeInstruction mb ?i) = ?mb1"
    using removed_renamed_at [OF assms(1), of y x]
    by (simp add: renameOperands_def mkInstr_def)
  have t1: "iteration env (mb, c, ?i, n) = Inr (?mb1, c, ?i, n + 1)"
    using step_identity [OF i assms(2,4), of c n] r1 by simp
  have i1: "?i < stop ?mb1" "getInstrPtr ?mb1 ?i = mkInstr calcRef (Some f) 1 [z, x]"
    by (simp_all add: stop_def getInstrPtr_def)
  have ty: "getVarType ?mb1 z = getVarType ?mb1 x" "f = ATOMname env (getVarType ?mb1 x)"
    using assms(3,4) by (simp_all add: getVarType_def)
  have r2: "renameFrom z x ?i (removeInstruction ?mb1 ?i) = ?mb2"
    using removed_renamed_at [of ?mb1 pre _ ?rest1 z x] by simp
  have t2: "iteration env (?mb1, c, ?i, n + 1) = Inr (?mb2, c, ?i, n + 2)"
    using step_identity [OF i1 ty, of c "n + 1"] r2 by simp
  show ?thesis
    using loop_turn [OF i(1) t1] loop_turn [OF i1(1) t2] by simp
qed

text \<open>
  Claim C9. Let the program hold, at index \<open>length pre\<close>, the casts
  \<open>y := calc.f(x)\<close> and \<open>z := calc.f(y)\<close>, where \<open>x\<close>, \<open>y\<close> and \<open>z\<close> have the same type
  and \<open>f\<close> is the canonical name of that type (\<open>int\<close> in the claim), followed by any
  instructions \<open>rest\<close>. When the scan stands at the first cast it removes it, stays
  at the index, removes the second cast and stays again: it goes on as on the
  program without the two casts, \<open>y\<close> and then \<open>z\<close> replaced by \<open>x\<close> in the operand
  slots of \<open>rest\<close>, with the count raised by 2. So when the casts follow the
  signature, one invocation of the pass (its table allocated) gives what it gives on
  that shorter program, with a count higher by 2 (an error of the scan of the rest
  is the same error). In the renamed rest no operand slot names \<open>y\<close> or \<open>z\<close> any more
  (\<open>x\<close> being another variable than \<open>y\<close> and \<open>z\<close>).
\<close>

theorem chained_casts_both_removed:
  assumes "stmt mb = pre @ mkInstr calcRef (Some f) 1 [y, x] #
                           mkInstr calcRef (Some f) 1 [z, y] # rest"
    and "getVarType mb y = getVarType mb x" and "getVarType mb z = getVarType mb x"
    and "f = ATOMname env (getVarType mb x)"
    and "x \<noteq> y" and "x \<noteq> z"
    and "rest' = map (renameOperands z x) (map (renameOperands y x) rest)"
  shows "loop env (mb, c, length pre, n) =
           loop env (mb\<lparr>stmt := pre @ rest'\<rparr>, c, length pre, n + 2) \<and>
         (length pre = 1 \<longrightarrow>
          OPTcoercionImplementation env True mb =
           (case OPTcoercionImplementation env True (mb\<lparr>stmt := pre @ rest'\<rparr>) of
              Inl e \<Rightarrow> Inl e
            | Inr (mb', k) \<Rightarrow> Inr (mb', k + 2))) \<and>
         (\<forall>q\<in>set rest'. \<forall>k<argc q. retc q \<le> k \<longrightarrow> getArg q k \<noteq> y \<and> getArg q k \<noteq> z)"
proof -
  have turns: "loop env (mb, c, length pre, n) =
        loop env (mb\<lparr>stmt := pre @ rest'\<rparr>, c, length pre, n + 2)" for c n
    unfolding assms(7) using assms(1-4) by (rule chain_turns)
  have run: "OPTcoercionImplementation env True mb =
           (case OPTcoercionImplementation env True (mb\<lparr>stmt := pre @ rest'\<rparr>) of
              Inl e \<Rightarrow> Inl e
            | Inr (mb', k) \<Rightarrow> Inr (mb', k + 2))"
    if "length pre = 1"
    using turns [of "\<lambda>v. zeroCoercion" 0] that
      loop_shift [of env "mb\<lparr>stmt := pre @ rest'\<rparr>" "\<lambda>v. zeroCoercion" 1 0 2]
    by (simp add: OPTcoercionImplementation_def split: sum.splits)
  have free: "getArg q k \<noteq> y \<and> getArg q k \<noteq> z"
    if q: "q \<in> set rest'" and k: "k < argc q" "retc q \<le> k" for q k
  proof -
    obtain q0 where q0: "q = renameOperands z x (renameOperands y x q0)"
      using q unfolding assms(7) by auto
    have "getArg (renameOperands y x q0) k \<noteq> y"
      using k assms(5) unfolding q0 by (simp add: renameOperands_arg)
    then show ?thesis
      using k assms(5,6) unfolding q0 by (simp add: renameOperands_arg)
  qed
  show ?thesis
    using turns run free by blast
qed

theorem chained_casts_both_removed_witness:
  "stmt exBlk9 = [exSig] @ mkInstr calcRef (Some ''int'') 1 [9, 8] #
                           mkInstr calcRef (Some ''int'') 1 [10, 9] #
                           [mkInstr (Some ''calc'') (Some ''+'') 1 [11, 10, 9]] \<and>
   getVarType exBlk9 9 = getVarType exBlk9 8 \<and> getVarType exBlk9 10 = getVarType exBlk9 8 \<and>
   ''int'' = ATOMname exEnv (getVarType exBlk9 8) \<and>
   OPTcoercionImplementation exEnv True exBlk9 =
     Inr (\<lparr>stmt = [exSig, mkInstr (Some ''calc'') (Some ''+'') 1 [11, 8, 8]],
           var = exVars\<rparr>, 2)"
proof -
  have h: "stmt exBlk9 = [exSig] @ mkInstr calcRef (Some ''int'') 1 [9, 8] #
                         mkInstr calcRef (Some ''int'') 1 [10, 9] #
                         [mkInstr (Some ''calc'') (Some ''+'') 1 [11, 10, 9]]"
    "getVarType exBlk9 9 = getVarType exBlk9 8" "getVarType exBlk9 10 = getVarType exBlk9 8"
    "''int'' = ATOMname exEnv (getVarType exBlk9 8)"
    "(8::nat) \<noteq> 9" "(8::nat) \<noteq> 10"
    by (simp_all add: exBlk9_def ex_defs mal_defs)
  have r: "OPTcoercionImplementation exEnv True
             (exBlk9\<lparr>stmt := [exSig] @ map (renameOperands 10 8) (map (renameOperands 9 8)
                [mkInstr (Some ''calc'') (Some ''+'') 1 [11, 10, 9]])\<rparr>) =
           Inr (\<lparr>stmt = [exSig, mkInstr (Some ''calc'') (Some ''+'') 1 [11, 8, 8]],
                 var = exVars\<rparr>, 0)"
    by (simp add: exBlk9_def ex_defs run_defs mal_defs)
  show ?thesis
    using h chained_casts_both_removed [OF h refl] r by simp
qed

section \<open>One turn of the loop, case by case\<close>

lemma setInstr_same [simp]: "setInstr mb i (getInstrPtr mb i) = mb"
  by (simp add: setInstr_def getInstrPtr_def)

lemma calcStep_narrowInstr:
  "coercionOptimizerCalcStep env mb i c = setInstr mb i (narrowInstr env mb (getInstrPtr mb i) c)"
  unfolding coercionOptimizerCalcStep_def narrowInstr_def Let_def
  by (simp only: if_distrib [of "setInstr mb i"] setInstr_same)

lemma narrowInstr_fields [simp]:
  "modname (narrowInstr env mb p c) = modname p"
  "fcnname (narrowInstr env mb p c) = fcnname p"
  "retc (narrowInstr env mb p c) = retc p"
  "argc (narrowInstr env mb p c) = argc p"
  by (simp_all add: narrowInstr_def Let_def setArg_def argc_def)

lemma narrowInstr_arg0 [simp]: "getArg (narrowInstr env mb p c) 0 = getArg p 0"
  by (simp add: narrowInstr_def Let_def setArg_def getArg_def)

lemma narrowInstr_var:
  "var mb' = var mb \<Longrightarrow> narrowInstr env mb' p c = narrowInstr env mb p c"
  by (simp add: narrowInstr_def getVarType_def)

lemma calcStep_var [simp]: "var (coercionOptimizerCalcStep env mb i c) = var mb"
  by (simp add: calcStep_narrowInstr setInstr_def)

lemma calcStep_at:
  "i < stop mb \<Longrightarrow>
   getInstrPtr (coercionOptimizerCalcStep env mb i c) i = narrowInstr env mb (getInstrPtr mb i) c"
  by (simp add: calcStep_narrowInstr setInstr_def getInstrPtr_def stop_def)

lemma step_cases:
  "coercionOptimizerStep env mb i p = Inr (mb', k) \<Longrightarrow>
   (k = 0 \<and> mb' = mb \<and>
      \<not> (getVarType mb (getArg p 0) = getVarType mb (getArg p 1) \<and>
         getFunctionId p = Some (ATOMname env (getVarType mb (getArg p 1))))) \<or>
   (k = 1 \<and> mb' = renameFrom (getArg p 0) (getArg p 1) i (removeInstruction mb i) \<and>
      getVarType mb (getArg p 0) = getVarType mb (getArg p 1) \<and>
      getFunctionId p = Some (ATOMname env (getVarType mb (getArg p 1))))"
  by (auto simp: coercionOptimizerStep_def Let_def split: if_splits option.splits)

lemma recordCandidate_no_module [simp]:
  "getModuleId p \<noteq> batcalcRef \<Longrightarrow> recordCandidate env mb i p c = c"
  by (simp add: recordCandidate_def wideConstructor_def)

lemma calcStep_no_module [simp]:
  "getModuleId (getInstrPtr mb i) \<noteq> batcalcRef \<Longrightarrow> coercionOptimizerCalcStep env mb i c = mb"
  by (simp add: coercionOptimizerCalcStep_def)

lemma iteration_cases:
  assumes "iteration env (mb, c, i, n) = Inr (mb2, c2, i2, n2)" and "i < stop mb"
  defines "c1 \<equiv> recordCandidate env mb i (getInstrPtr mb i) c"
  defines "mb1 \<equiv> coercionOptimizerCalcStep env mb i c1"
  defines "p1 \<equiv> narrowInstr env mb (getInstrPtr mb i) c1"
  shows "c2 = c1 \<and>
    ((i2 = Suc i \<and> n2 = n \<and> mb2 = mb1 \<and> \<not> removes env mb p1) \<or>
     (i2 = i \<and> n2 = n + 1 \<and> removes env mb p1 \<and> c1 = c \<and> mb1 = mb \<and>
      mb2 = renameFrom (getArg p1 0) (getArg p1 1) i (removeInstruction mb i)))"
proof (cases "getModuleId (getInstrPtr mb i) = None")
  case True
  then have m: "getModuleId (getInstrPtr mb i) \<noteq> batcalcRef"
     "getModuleId (getInstrPtr mb i) \<noteq> calcRef"
    by (simp_all add: batcalcRef_def calcRef_def)
  have "getModuleId p1 \<noteq> calcRef"
    using m(2) by (simp add: p1_def getModuleId_def)
  then have "\<not> removes env mb p1" by (simp add: removes_def)
  then show ?thesis
    using assms(1) True m(1) by (simp add: iteration_def c1_def mb1_def)
next
  case False
  have p1: "getInstrPtr mb1 i = p1"
    unfolding mb1_def p1_def using assms(2) by (rule calcStep_at)
  have v1: "var mb1 = var mb" by (simp add: mb1_def)
  have it: "iteration env (mb, c, i, n) =
      (if getModuleId p1 = calcRef \<and> argc p1 = 2
       then (case coercionOptimizerStep env mb1 i p1 of
               Inl e \<Rightarrow> Inl e
             | Inr (mb2, k) \<Rightarrow> Inr (mb2, c1, (if k \<noteq> 0 then i else i + 1), n + k))
       else Inr (mb1, c1, i + 1, n))"
  proof -
    have F: "(getModuleId (getInstrPtr mb i) = None) = False"
      using False by simp
    show ?thesis
      unfolding iteration_def prod.case F if_False Let_def
      by (simp only: c1_def [symmetric] mb1_def [symmetric] p1)
  qed
  show ?thesis
  proof (cases "getModuleId p1 = calcRef \<and> argc p1 = 2")
    case no: False
    then have "\<not> removes env mb p1" by (auto simp: removes_def)
    then show ?thesis using assms(1) it no by auto
  next
    case yes: True
    then have "getModuleId (getInstrPtr mb i) = calcRef"
      by (simp add: p1_def getModuleId_def)
    then have nb: "getModuleId (getInstrPtr mb i) \<noteq> batcalcRef"
      by (simp add: calcRef_def batcalcRef_def)
    have same: "c1 = c" "mb1 = mb"
      using nb by (simp_all add: c1_def mb1_def)
    obtain mb' k where st: "coercionOptimizerStep env mb1 i p1 = Inr (mb', k)"
      and res: "mb2 = mb'" "c2 = c1" "i2 = (if k \<noteq> 0 then i else i + 1)" "n2 = n + k"
      using assms(1) it yes by (auto split: sum.splits)
    show ?thesis
      using step_cases [OF st] res yes same
      by (auto simp: removes_def getVarType_def)
  qed
qed

lemma iteration_table:
  assumes "iteration env (mb, c, i, n) = Inr (mb2, c2, i2, n2)" and "i < stop mb"
  shows "c2 = recordCandidate env mb i (getInstrPtr mb i) c"
  using iteration_cases [OF assms] by simp

lemma zero_src_slot1:
  assumes "i < stop mb" and "src (c (getArg (getInstrPtr mb i) 1)) = 0"
  shows "getArg (getInstrPtr (coercionOptimizerCalcStep env mb i c) i) 1 =
         getArg (getInstrPtr mb i) 1"
  using assms(2) unfolding calcStep_at [OF assms(1)]
  by (simp add: narrowInstr_def Let_def setArg_def getArg_def argc_def)

lemma zero_src_slot2:
  assumes "i < stop mb" and "src (c (getArg (getInstrPtr mb i) 2)) = 0"
  shows "getArg (getInstrPtr (coercionOptimizerCalcStep env mb i c) i) 2 =
         getArg (getInstrPtr mb i) 2"
  using assms(2) unfolding calcStep_at [OF assms(1)]
  by (simp add: narrowInstr_def Let_def setArg_def getArg_def argc_def)

lemma narrow_shape: "wideShapeResult (narrowInstr env mb p c) v = wideShapeResult p v"
  by (simp add: wideShapeResult_def getModuleId_def getFunctionId_def)

lemma rename_shape: "wideShapeResult (renameOperands a b q) v = wideShapeResult q v"
  by (auto simp: wideShapeResult_def getModuleId_def getFunctionId_def renameOperands_arg)

lemma calcStep_shape:
  assumes "\<forall>p\<in>set (stmt mb). \<not> wideShapeResult p v" and "i < stop mb"
  shows "\<forall>p\<in>set (stmt (coercionOptimizerCalcStep env mb i c)). \<not> wideShapeResult p v"
proof -
  let ?q = "narrowInstr env mb (getInstrPtr mb i) c"
  have "getInstrPtr mb i \<in> set (stmt mb)"
    using assms(2) by (simp add: getInstrPtr_def stop_def)
  then have "\<not> wideShapeResult ?q v"
    using assms(1) by (simp add: narrow_shape)
  moreover have "set (stmt (setInstr mb i ?q)) \<subseteq> insert ?q (set (stmt mb))"
    by (simp add: setInstr_def set_update_subset_insert)
  ultimately show ?thesis
    using assms(1) unfolding calcStep_narrowInstr by blast
qed

lemma removal_shape:
  assumes "\<forall>p\<in>set (stmt mb). \<not> wideShapeResult p v"
  shows "\<forall>p\<in>set (stmt (renameFrom a b i (removeInstruction mb i))). \<not> wideShapeResult p v"
proof -
  have "set (stmt (renameFrom a b i (removeInstruction mb i))) \<subseteq>
        set (stmt mb) \<union> renameOperands a b ` set (stmt mb)"
    by (auto simp: renameFrom_def removeInstruction_def dest: in_set_takeD in_set_dropD)
  then show ?thesis
    using assms by (auto simp: rename_shape)
qed

lemma iteration_shape:
  assumes "iteration env (mb, c, i, n) = Inr (mb2, c2, i2, n2)" and "i < stop mb"
    and "\<forall>p\<in>set (stmt mb). \<not> wideShapeResult p v"
  shows "\<forall>p\<in>set (stmt mb2). \<not> wideShapeResult p v"
  using iteration_cases [OF assms(1,2)] calcStep_shape [OF assms(3,2)]
    removal_shape [OF assms(3)]
  by metis

lemma scanned_shape:
  assumes "scanned env s0 s" and "\<forall>p\<in>set (stmt (fst s0)). \<not> wideShapeResult p v"
  shows "\<forall>p\<in>set (stmt (fst s)). \<not> wideShapeResult p v"
  using assms
proof (induction rule: scanned.induct)
  case scanned_start
  then show ?case by simp
next
  case (scanned_turn mb c i n s')
  obtain mb2 c2 i2 n2 where s': "s' = (mb2, c2, i2, n2)" by (cases s') auto
  show ?case
    using iteration_shape [OF scanned_turn.hyps(3) [unfolded s'] scanned_turn.hyps(2), of v]
      scanned_turn s'
    by simp
qed

lemma shape_never_constructor:
  assumes "\<forall>p\<in>set (stmt mb0). \<not> wideShapeResult p v"
    and "scanned env (mb0, c0, i0, n0) (mb, c, i, n)" and "i < stop mb"
  shows "\<not> (wideConstructor env mb (getInstrPtr mb i) \<and> getArg (getInstrPtr mb i) 0 = v)"
proof -
  have "getInstrPtr mb i \<in> set (stmt mb)"
    using assms(3) by (simp add: getInstrPtr_def stop_def)
  then have "\<not> wideShapeResult (getInstrPtr mb i) v"
    using scanned_shape [OF assms(2), of v] assms(1) by simp
  then show ?thesis
    by (auto simp: wideShapeResult_def wideConstructor_def)
qed

text \<open>
  Claim C10. The table starts as zeros and the rewriter applies an entry only when
  its source field is not 0. Part one: in every state the scan passes through, the
  entry of a variable \<open>v\<close> that is at no time the result of an instruction the
  recorder accepts is the zero entry, also in the table \<open>c1\<close> handed to the rewriter
  in that turn, and an operand slot holding \<open>v\<close> is left as it is. Part two, for any
  block and any table: an operand slot whose variable has an entry with source
  field 0 is left as it is, whatever the other fields say; so a candidate whose
  source is variable 0 is never applied.
\<close>

theorem absent_candidate_never_applied:
  assumes "scanned env (mb0, (\<lambda>v. zeroCoercion), 1, 0) (mb, c, i, n)"
    and "\<forall>mb' c' i' n'. scanned env (mb0, (\<lambda>v. zeroCoercion), 1, 0) (mb', c', i', n') \<and>
           i' < stop mb' \<longrightarrow>
           \<not> (wideConstructor env mb' (getInstrPtr mb' i') \<and> getArg (getInstrPtr mb' i') 0 = v)"
  shows "c v = zeroCoercion \<and>
    (i < stop mb \<longrightarrow>
      (let c1 = recordCandidate env mb i (getInstrPtr mb i) c;
           mb1 = coercionOptimizerCalcStep env mb i c1
       in c1 v = zeroCoercion \<and>
          (getArg (getInstrPtr mb i) 1 = v \<longrightarrow> getArg (getInstrPtr mb1 i) 1 = v) \<and>
          (getArg (getInstrPtr mb i) 2 = v \<longrightarrow> getArg (getInstrPtr mb1 i) 2 = v))) \<and>
    (iA < stop mbA \<and> src (cA (getArg (getInstrPtr mbA iA) 1)) = 0 \<longrightarrow>
       getArg (getInstrPtr (coercionOptimizerCalcStep env mbA iA cA) iA) 1 =
       getArg (getInstrPtr mbA iA) 1) \<and>
    (iA < stop mbA \<and> src (cA (getArg (getInstrPtr mbA iA) 2)) = 0 \<longrightarrow>
       getArg (getInstrPtr (coercionOptimizerCalcStep env mbA iA cA) iA) 2 =
       getArg (getInstrPtr mbA iA) 2)"
proof -
  have rec: "recordCandidate env mb' i' (getInstrPtr mb' i') c' v = c' v"
    if "scanned env (mb0, (\<lambda>v. zeroCoercion), 1, 0) (mb', c', i', n')" "i' < stop mb'"
    for mb' c' i' n'
    using assms(2) that by (auto simp: recordCandidate_def Let_def)
  have "scanned env (mb0, (\<lambda>v. zeroCoercion), 1, 0) s \<Longrightarrow> fst (snd s) v = zeroCoercion" for s
  proof (induction rule: scanned.induct)
    case scanned_start
    then show ?case by simp
  next
    case (scanned_turn mb' c' i' n' s')
    obtain mb2 c2 i2 n2 where s': "s' = (mb2, c2, i2, n2)" by (cases s') auto
    have "c2 = recordCandidate env mb' i' (getInstrPtr mb' i') c'"
      using iteration_table scanned_turn.hyps(2,3) s' by blast
    then show ?case
      using rec [OF scanned_turn.hyps(1,2)] scanned_turn.IH s' by simp
  qed
  then have z: "c v = zeroCoercion"
    using assms(1) by fastforce
  have turn: "(let c1 = recordCandidate env mb i (getInstrPtr mb i) c;
           mb1 = coercionOptimizerCalcStep env mb i c1
       in c1 v = zeroCoercion \<and>
          (getArg (getInstrPtr mb i) 1 = v \<longrightarrow> getArg (getInstrPtr mb1 i) 1 = v) \<and>
          (getArg (getInstrPtr mb i) 2 = v \<longrightarrow> getArg (getInstrPtr mb1 i) 2 = v))"
    if i: "i < stop mb"
  proof -
    let ?c1 = "recordCandidate env mb i (getInstrPtr mb i) c"
    have c1: "?c1 v = zeroCoercion"
      using rec [OF assms(1) i] z by simp
    then have "src (?c1 v) = 0" by (simp add: zeroCoercion_def)
    then show ?thesis
      using c1 zero_src_slot1 [OF i, of ?c1 env] zero_src_slot2 [OF i, of ?c1 env]
      by (auto simp: Let_def)
  qed
  show ?thesis
    using z turn zero_src_slot1 [of iA mbA cA env] zero_src_slot2 [of iA mbA cA env] by blast
qed

theorem absent_candidate_never_applied_witness:
  "scanned exEnv (exBlk6, (\<lambda>v. zeroCoercion), 1, 0) (exBlk6, exTable6, 2, 0) \<and>
   exTable6 7 = zeroCoercion \<and>
   getArg (getInstrPtr exBlk6 2) 2 = 7 \<and>
   getArg (getInstrPtr (coercionOptimizerCalcStep exEnv exBlk6 2 exTable6) 2) 2 = 7 \<and>
   getArg (getInstrPtr (coercionOptimizerCalcStep exEnv exBlk6 2 exTable6) 2) 1 = 1"
proof -
  have t: "iteration exEnv (exBlk6, (\<lambda>v. zeroCoercion), 1, 0) = Inr (exBlk6, exTable6, 2, 0)"
    by (simp add: exBlk6_def exTable6_def ex_defs iteration_def recordCandidate_def
        coercionOptimizerCalcStep_def coercionOptimizerStep_def Let_def mal_defs)
  have sc: "scanned exEnv (exBlk6, (\<lambda>v. zeroCoercion), 1, 0) (exBlk6, exTable6, 2, 0)"
    by (rule scanned_turn [OF scanned_start _ t]) (simp add: exBlk6_def stop_def)
  have shape: "\<forall>p\<in>set (stmt exBlk6). \<not> wideShapeResult p 7"
    by (simp add: exBlk6_def ex_defs wideShapeResult_def mal_defs)
  have never: "\<forall>mb' c' i' n'.
      scanned exEnv (exBlk6, (\<lambda>v. zeroCoercion), 1, 0) (mb', c', i', n') \<and> i' < stop mb' \<longrightarrow>
      \<not> (wideConstructor exEnv mb' (getInstrPtr mb' i') \<and> getArg (getInstrPtr mb' i') 0 = 7)"
    using shape_never_constructor [OF shape] by blast
  have r: "recordCandidate exEnv exBlk6 2 (getInstrPtr exBlk6 2) exTable6 = exTable6"
    by (simp add: exBlk6_def ex_defs recordCandidate_def mal_defs)
  have i: "2 < stop exBlk6" "getArg (getInstrPtr exBlk6 2) 2 = 7"
    by (simp_all add: exBlk6_def ex_defs mal_defs)
  have s1: "getArg (getInstrPtr (coercionOptimizerCalcStep exEnv exBlk6 2 exTable6) 2) 1 = 1"
    by (simp add: exBlk6_def exTable6_def ex_defs coercionOptimizerCalcStep_def Let_def mal_defs)
  show ?thesis
    using absent_candidate_never_applied [OF sc never, of 0 exBlk6 exTable6] sc i s1
    by (simp add: r Let_def)
qed

section \<open>Running the pass again\<close>

lemma tableSound_zero: "tableSound env mb (\<lambda>v. zeroCoercion)"
  by (simp add: tableSound_def zeroCoercion_def)

lemma tableSound_record:
  "tableSound env mb c \<Longrightarrow> tableSound env mb (recordCandidate env mb i p c)"
  by (simp add: tableSound_def recordCandidate_def Let_def getArgType_def)

lemma tableSound_var: "var mb' = var mb \<Longrightarrow> tableSound env mb' c = tableSound env mb c"
  by (simp add: tableSound_def getVarType_def)

lemma narrowInstr_unguarded: "\<not> arithGuard p \<Longrightarrow> narrowInstr env mb p c = p"
proof -
  have n: "getFunctionId p = None \<Longrightarrow>
     \<not> (getFunctionId p = plusRef \<or> getFunctionId p = minusRef \<or>
        getFunctionId p = mulRef \<or> getFunctionId p = divRef \<or>
        firstCharIs (getFunctionId p) (CHR ''%''))"
    by (simp add: mal_defs)
  assume "\<not> arithGuard p"
  then have "getModuleId p \<noteq> batcalcRef \<or> getFunctionId p = None \<or>
     \<not> (getFunctionId p = plusRef \<or> getFunctionId p = minusRef \<or>
        getFunctionId p = mulRef \<or> getFunctionId p = divRef \<or>
        firstCharIs (getFunctionId p) (CHR ''%'')) \<or> argc p \<noteq> 3"
    unfolding arithGuard_def by blast
  then show ?thesis
    unfolding narrowInstr_def using n by presburger
qed

lemma narrowInstr_guarded:
  assumes "arithGuard p" and "argv p = [x0, x1, x2]"
  shows "narrowInstr env mb p c =
         p\<lparr>argv := [x0,
                     if slotGuard env mb c p 1 then src (c x1) else x1,
                     if slotGuard env mb c p 2 then src (c x2) else x2]\<rparr>"
proof -
  have g: "(getModuleId p \<noteq> batcalcRef \<or> getFunctionId p = None) = False"
    "(\<not> (getFunctionId p = plusRef \<or> getFunctionId p = minusRef \<or>
         getFunctionId p = mulRef \<or> getFunctionId p = divRef \<or>
         firstCharIs (getFunctionId p) (CHR ''%'')) \<or> argc p \<noteq> 3) = False"
    using assms(1) by (auto simp: arithGuard_def)
  have p: "p\<lparr>argv := [x0, x1, x2]\<rparr> = p"
    using assms(2) by simp
  show ?thesis
    unfolding narrowInstr_def g if_False
    using assms(2) by (simp add: Let_def slotGuard_def setArg_def getArg_def p)
qed

lemma arithGuard_narrowInstr [simp]: "arithGuard (narrowInstr env mb p c) = arithGuard p"
  by (simp add: arithGuard_def getModuleId_def getFunctionId_def)

lemma narrowInstr_idem:
  assumes "tableSound env mb c"
  shows "narrowInstr env mb (narrowInstr env mb p c) c = narrowInstr env mb p c"
proof (cases "arithGuard p")
  case False
  then show ?thesis by (simp add: narrowInstr_unguarded)
next
  case True
  then have "length (argv p) = 3" by (simp add: arithGuard_def argc_def)
  then obtain x0 x1 x2 where a: "argv p = [x0, x1, x2]"
    using list3 [of "argv p"] by auto
  let ?y1 = "if slotGuard env mb c p 1 then src (c x1) else x1"
  let ?y2 = "if slotGuard env mb c p 2 then src (c x2) else x2"
  let ?q = "p\<lparr>argv := [x0, ?y1, ?y2]\<rparr>"
  have q: "narrowInstr env mb p c = ?q"
    using narrowInstr_guarded [OF True a] .
  have gq: "arithGuard ?q"
    using True arithGuard_narrowInstr [of env mb p c] unfolding q by simp
  have n1: "\<not> slotGuard env mb c ?q 1"
    using assms a by (auto simp: slotGuard_def getArg_def tableSound_def)
  have n2: "\<not> slotGuard env mb c ?q 2"
    using assms a by (auto simp: slotGuard_def getArg_def tableSound_def)
  have "narrowInstr env mb ?q c = ?q"
    using narrowInstr_guarded [OF gq, of x0 ?y1 ?y2 env mb c] n1 n2 by simp
  then show ?thesis
    unfolding q .
qed

lemma narrowInstr_hge: "getFunctionId p = hgeRef \<Longrightarrow> narrowInstr env mb p c = p"
  by (rule narrowInstr_unguarded) (simp add: arithGuard_def mal_defs)

lemma wideConstructor_narrow:
  assumes "var mbF = var mb"
  shows "wideConstructor env mbF (narrowInstr env mb p c1) = wideConstructor env mb p"
proof (cases "getFunctionId p = hgeRef")
  case True
  then show ?thesis
    using assms by (simp add: narrowInstr_hge wideConstructor_def isVarConstant_def)
next
  case False
  then show ?thesis
    by (simp add: wideConstructor_def getFunctionId_def)
qed

lemma recordCandidate_narrow:
  assumes "var mbF = var mb"
  shows "recordCandidate env mbF i (narrowInstr env mb p c1) c = recordCandidate env mb i p c"
proof (cases "wideConstructor env mb p")
  case False
  then show ?thesis
    using wideConstructor_narrow [OF assms, of env p c1] by (simp add: recordCandidate_def)
next
  case True
  then have "getFunctionId p = hgeRef" by (simp add: wideConstructor_def)
  then have "narrowInstr env mb p c1 = p" by (rule narrowInstr_hge)
  then show ?thesis
    using assms True wideConstructor_narrow [OF assms, of env p c1]
    by (simp add: recordCandidate_def getArgType_def getVarType_def getVarConstant_ival_def)
qed

lemma step_kept_again:
  assumes "coercionOptimizerStep env mb i p = Inr (mb', 0)" and "var mbF = var mb"
  shows "coercionOptimizerStep env mbF j p = Inr (mbF, 0)"
  using assms
  by (auto simp: coercionOptimizerStep_def Let_def getVarType_def split: if_splits option.splits)

lemma iteration_prefix:
  assumes "iteration env (mb, c, i, n) = Inr (mb2, c2, i2, n2)" and "i < stop mb"
  shows "take i (stmt mb2) = take i (stmt mb) \<and> var mb2 = var mb \<and> i \<le> i2 \<and> i2 \<le> stop mb2"
proof -
  have k: "take i (stmt (coercionOptimizerCalcStep env mb i c')) = take i (stmt mb)" for c'
    by (simp add: calcStep_narrowInstr setInstr_def)
  have r: "take i (stmt (renameFrom a b i (removeInstruction mb i))) = take i (stmt mb) \<and>
           i \<le> stop (renameFrom a b i (removeInstruction mb i))" for a b
    using assms(2) by (simp add: stmt_removed_renamed stop_def)
  show ?thesis
    using iteration_cases [OF assms] k r assms(2) by (auto simp: Suc_le_eq)
qed

lemma loop_prefix:
  "loop env s = Inr (mb', n') \<Longrightarrow> fst (snd (snd s)) \<le> stop (fst s) \<Longrightarrow>
   take (fst (snd (snd s))) (stmt mb') = take (fst (snd (snd s))) (stmt (fst s)) \<and>
   var mb' = var (fst s) \<and> fst (snd (snd s)) \<le> stop mb'"
proof (induction s rule: loop_induct [where env = env])
  case (turn mb c i n)
  show ?case
  proof (cases "i < stop mb")
    case False
    then show ?thesis using turn.prems by (simp add: loop_exit)
  next
    case True
    show ?thesis
    proof (cases "iteration env (mb, c, i, n)")
      case (Inl e)
      then show ?thesis using turn.prems True by (simp add: loop_error)
    next
      case (Inr s')
      obtain mb2 c2 i2 n2 where s': "s' = (mb2, c2, i2, n2)" by (cases s') auto
      have pre: "take i (stmt mb2) = take i (stmt mb)" "var mb2 = var mb" "i \<le> i2"
        "i2 \<le> stop mb2"
        using iteration_prefix [OF Inr [unfolded s'] True] by simp_all
      have "loop env s' = Inr (mb', n')"
        using turn.prems loop_turn [OF True Inr] by simp
      then have ih: "take i2 (stmt mb') = take i2 (stmt mb2)" "var mb' = var mb2" "i2 \<le> stop mb'"
        using turn.IH [OF True Inr] pre(4) s' by simp_all
      have "take i (stmt mb') = take i (take i2 (stmt mb'))"
        using pre(3) by (simp add: min_def)
      also have "\<dots> = take i (stmt mb2)"
        using pre(3) ih(1) by (simp add: min_def)
      finally show ?thesis
        using pre ih by simp
    qed
  qed
qed

lemma second_turn:
  assumes "i < stop mb" and "iteration env (mb, c, i, n) = Inr (mb2, c2, i2, n2)"
    and "i2 \<noteq> i" and "tableSound env mb c"
    and "i < stop mbF" and "getInstrPtr mbF i = getInstrPtr mb2 i" and "var mbF = var mb"
  shows "iteration env (mbF, c, i, m) = Inr (mbF, c2, Suc i, m)"
proof -
  let ?p = "getInstrPtr mb i"
  let ?c1 = "recordCandidate env mb i ?p c"
  let ?p1 = "narrowInstr env mb ?p ?c1"
  have first: "c2 = ?c1" "mb2 = coercionOptimizerCalcStep env mb i ?c1" "\<not> removes env mb ?p1"
    using iteration_cases [OF assms(2,1)] assms(3) by auto
  have pF: "getInstrPtr mbF i = ?p1"
    using assms(6) first(2) calcStep_at [OF assms(1)] by simp
  have c1F: "recordCandidate env mbF i (getInstrPtr mbF i) c = ?c1"
    unfolding pF using assms(7) by (rule recordCandidate_narrow)
  have sound: "tableSound env mb ?c1"
    using assms(4) by (rule tableSound_record)
  have "narrowInstr env mbF ?p1 ?c1 = ?p1"
    using narrowInstr_var [OF assms(7)] narrowInstr_idem [OF sound] by simp
  then have "narrowInstr env mbF (getInstrPtr mbF i) ?c1 = getInstrPtr mbF i"
    unfolding pF .
  then have mb1F: "coercionOptimizerCalcStep env mbF i ?c1 = mbF"
    by (simp add: calcStep_narrowInstr)
  show ?thesis
  proof (cases "getModuleId ?p = None")
    case True
    then have "getModuleId ?p1 = None" by (simp add: getModuleId_def)
    moreover have "?c1 = c"
      using True by (simp add: batcalcRef_def)
    ultimately show ?thesis
      using pF first(1) by (simp add: iteration_def)
  next
    case False
    then have F: "(getModuleId (getInstrPtr mbF i) = None) = False"
      unfolding pF by (simp add: getModuleId_def)
    have it: "iteration env (mbF, c, i, m) =
      (if getModuleId ?p1 = calcRef \<and> argc ?p1 = 2
       then (case coercionOptimizerStep env mbF i ?p1 of
               Inl e \<Rightarrow> Inl e
             | Inr (mb2, k) \<Rightarrow> Inr (mb2, ?c1, (if k \<noteq> 0 then i else i + 1), m + k))
       else Inr (mbF, ?c1, i + 1, m))"
      unfolding iteration_def prod.case F if_False Let_def c1F mb1F
      by (simp only: pF)
    show ?thesis
    proof (cases "getModuleId ?p1 = calcRef \<and> argc ?p1 = 2")
      case no: False
      then show ?thesis using it first(1) by auto
    next
      case yes: True
      then have "getModuleId ?p = calcRef" by (simp add: getModuleId_def)
      then have nb: "getModuleId ?p \<noteq> batcalcRef"
        by (simp add: calcRef_def batcalcRef_def)
      have F1: "(getModuleId ?p = None) = False" using False by simp
      have p1: "getInstrPtr (coercionOptimizerCalcStep env mb i ?c1) i = ?p1"
        using assms(1) by (rule calcStep_at)
      have "iteration env (mb, c, i, n) =
        (case coercionOptimizerStep env mb i ?p1 of
               Inl e \<Rightarrow> Inl e
             | Inr (mb2, k) \<Rightarrow> Inr (mb2, ?c1, (if k \<noteq> 0 then i else i + 1), n + k))"
        unfolding iteration_def prod.case F1 if_False Let_def p1
        using yes nb by simp
      then obtain mb' k where st: "coercionOptimizerStep env mb i ?p1 = Inr (mb', k)"
        and "i2 = (if k \<noteq> 0 then i else i + 1)"
        using assms(2) by (auto split: sum.splits)
      then have "coercionOptimizerStep env mb i ?p1 = Inr (mb', 0)"
        using assms(3) by (auto split: if_splits)
      then have "coercionOptimizerStep env mbF i ?p1 = Inr (mbF, 0)"
        using assms(7) by (rule step_kept_again)
      then show ?thesis
        using it yes first(1) by simp
    qed
  qed
qed

lemma loop_second:
  "loop env s = Inr (mb', n') \<Longrightarrow> tableSound env (fst s) (fst (snd s)) \<Longrightarrow>
   loop env (mb', fst (snd s), fst (snd (snd s)), m) = Inr (mb', m)"
proof (induction s rule: loop_induct [where env = env])
  case (turn mb c i n)
  show ?case
  proof (cases "i < stop mb")
    case False
    then show ?thesis using turn.prems by (simp add: loop_exit)
  next
    case True
    show ?thesis
    proof (cases "iteration env (mb, c, i, n)")
      case (Inl e)
      then show ?thesis using turn.prems True by (simp add: loop_error)
    next
      case (Inr s')
      obtain mb2 c2 i2 n2 where s': "s' = (mb2, c2, i2, n2)" by (cases s') auto
      note it = Inr [unfolded s']
      have pre: "var mb2 = var mb" "i2 \<le> stop mb2"
        using iteration_prefix [OF it True] by simp_all
      have c2: "c2 = recordCandidate env mb i (getInstrPtr mb i) c"
        using iteration_table [OF it True] .
      have sound2: "tableSound env mb2 c2"
        unfolding c2 tableSound_var [OF pre(1)]
        using turn.prems(2) by (simp add: tableSound_record)
      have run: "loop env s' = Inr (mb', n')"
        using turn.prems loop_turn [OF True Inr] by simp
      have ih: "loop env (mb', c2, i2, m) = Inr (mb', m)"
        using turn.IH [OF True Inr run] sound2 s' by simp
      show ?thesis
      proof (cases "i2 = i")
        case True
        then have "c2 = c"
          using iteration_cases [OF it \<open>i < stop mb\<close>] by auto
        then show ?thesis using ih True by simp
      next
        case False
        then have i2: "i2 = Suc i"
          using iteration_cases [OF it True] by auto
        have fin: "take (Suc i) (stmt mb') = take (Suc i) (stmt mb2)" "var mb' = var mb2"
          "Suc i \<le> stop mb'"
          using loop_prefix [OF run] pre(2) s' i2 by simp_all
        have "stmt mb' ! i = take (Suc i) (stmt mb') ! i" by simp
        also have "\<dots> = stmt mb2 ! i" unfolding fin(1) by simp
        finally have same: "getInstrPtr mb' i = getInstrPtr mb2 i"
          by (simp add: getInstrPtr_def)
        have iF: "i < stop mb'" using fin(3) by simp
        have vF: "var mb' = var mb" using fin(2) pre(1) by simp
        have "iteration env (mb', c, i, m) = Inr (mb', c2, Suc i, m)"
          using second_turn [OF True it False _ iF same vF] turn.prems(2) by simp
        then show ?thesis
          using loop_turn [OF iF, of env c m] ih i2 by simp
      qed
    qed
  qed
qed

text \<open>
  Claim C8. When an invocation of the pass returns the program \<open>mb'\<close>, a second
  invocation on \<open>mb'\<close>, the allocation going as in the first, returns \<open>mb'\<close> itself
  and the count 0. When the first invocation obtained its table, this holds of every
  further invocation, whether it obtains its table or not.
\<close>

theorem second_run_changes_nothing:
  assumes "OPTcoercionImplementation env alloc mb = Inr (mb', n)"
  shows "OPTcoercionImplementation env alloc mb' = Inr (mb', 0) \<and>
         (alloc \<longrightarrow> (\<forall>again. OPTcoercionImplementation env again mb' = Inr (mb', 0)))"
proof (cases alloc)
  case False
  then show ?thesis by (simp add: OPTcoercionImplementation_def)
next
  case True
  have "loop env (mb, (\<lambda>v. zeroCoercion), 1, 0) = Inr (mb', n)"
    using assms True by (simp add: OPTcoercionImplementation_def)
  then have "loop env (mb', (\<lambda>v. zeroCoercion), 1, 0) = Inr (mb', 0)"
    using loop_second [of env "(mb, (\<lambda>v. zeroCoercion), 1, 0)" mb' n 0] tableSound_zero
    by simp
  then show ?thesis
    by (simp add: OPTcoercionImplementation_def)
qed

theorem second_run_changes_nothing_witness:
  "OPTcoercionImplementation exEnv True exBlk4 =
     Inr (\<lparr>stmt = [exSig, exWide, mkInstr (Some ''batcalc'') (Some ''+'') 1 [7, 1, 1]],
           var = exVars\<rparr>, 0) \<and>
   OPTcoercionImplementation exEnv True
     \<lparr>stmt = [exSig, exWide, mkInstr (Some ''batcalc'') (Some ''+'') 1 [7, 1, 1]],
      var = exVars\<rparr> =
     Inr (\<lparr>stmt = [exSig, exWide, mkInstr (Some ''batcalc'') (Some ''+'') 1 [7, 1, 1]],
           var = exVars\<rparr>, 0)"
proof -
  have h: "OPTcoercionImplementation exEnv True exBlk4 =
     Inr (\<lparr>stmt = [exSig, exWide, mkInstr (Some ''batcalc'') (Some ''+'') 1 [7, 1, 1]],
           var = exVars\<rparr>, 0)"
    by (simp add: exBlk4_def ex_defs run_defs mal_defs)
  show ?thesis
    using h second_run_changes_nothing [OF h] by simp
qed

text \<open>
  The combination the theorem leaves out: an invocation that cannot allocate its
  table returns \<open>exBlk8\<close> as it is (degraded mode), and an invocation after it that
  can allocate removes the cast and returns 1.
\<close>

lemma degraded_then_allocated_example:
  "OPTcoercionImplementation exEnv False exBlk8 = Inr (exBlk8, 0) \<and>
   OPTcoercionImplementation exEnv True exBlk8 =
     Inr (\<lparr>stmt = [exSig, mkInstr (Some ''calc'') (Some ''+'') 1 [10, 8, 8]],
           var = exVars\<rparr>, 1)"
  by (simp add: exBlk8_def ex_defs run_defs mal_defs)

section \<open>The rewriter and the recorded candidates\<close>

lemma recordCandidate_other:
  "\<not> (wideConstructor env mb p \<and> getArg p 0 = v) \<Longrightarrow> recordCandidate env mb i p c v = c v"
  by (auto simp: recordCandidate_def Let_def)

lemma recorded_entry:
  "recorded env s0 s v e \<Longrightarrow> fst (snd s) v = e"
proof (induction rule: recorded.induct)
  case (recorded_new mb c i n s')
  obtain mb2 c2 i2 n2 where s': "s' = (mb2, c2, i2, n2)" by (cases s') auto
  show ?case
    using iteration_table [OF recorded_new(4) [unfolded s'] recorded_new(2)] s' by simp
next
  case (recorded_kept mb c i n v e s')
  obtain mb2 c2 i2 n2 where s': "s' = (mb2, c2, i2, n2)" by (cases s') auto
  show ?case
    using iteration_table [OF recorded_kept(4) [unfolded s'] recorded_kept(2)] s'
      recordCandidate_other [OF recorded_kept(3), of i c] recorded_kept.IH
    by simp
qed

lemma scanned_recorded_or_zero:
  assumes "scanned env s0 s" and "fst (snd s0) = (\<lambda>v. zeroCoercion)"
  shows "(\<exists>e. recorded env s0 s v e) \<or> fst (snd s) v = zeroCoercion"
  using assms
proof (induction rule: scanned.induct)
  case scanned_start
  then show ?case by simp
next
  case (scanned_turn mb c i n s')
  obtain mb2 c2 i2 n2 where s': "s' = (mb2, c2, i2, n2)" by (cases s') auto
  have c2: "c2 = recordCandidate env mb i (getInstrPtr mb i) c"
    using iteration_table [OF scanned_turn.hyps(3) [unfolded s'] scanned_turn.hyps(2)] .
  show ?case
  proof (cases "wideConstructor env mb (getInstrPtr mb i) \<and> getArg (getInstrPtr mb i) 0 = v")
    case True
    then show ?thesis
      using recorded_new [OF scanned_turn.hyps(1,2) _ scanned_turn.hyps(3)] by blast
  next
    case False
    show ?thesis
    proof (cases "\<exists>e. recorded env s0 (mb, c, i, n) v e")
      case True
      then show ?thesis
        using recorded_kept [OF _ scanned_turn.hyps(2) False scanned_turn.hyps(3)] by blast
    next
      case no: False
      then have "c v = zeroCoercion"
        using scanned_turn.IH scanned_turn.prems by simp
      then show ?thesis
        using c2 s' recordCandidate_other [OF False, of i c] by simp
    qed
  qed
qed

lemma slotGuard_spec:
  assumes "scanned env (mb0, (\<lambda>v. zeroCoercion), 1, 0) (mb, c, i, n)"
  shows "slotGuard env mb c p k =
         specNarrowable env (mb0, (\<lambda>v. zeroCoercion), 1, 0) (mb, c, i, n) p k"
proof -
  let ?init = "(mb0, (\<lambda>v. zeroCoercion), 1::nat, 0::int)"
  let ?cur = "(mb, c, i, n)"
  let ?v = "getArg p k"
  have ent: "c ?v = e" if "recorded env ?init ?cur ?v e" for e
    using recorded_entry [OF that] by simp
  have ex: "\<exists>e. recorded env ?init ?cur ?v e" if "src (c ?v) \<noteq> 0"
  proof -
    have "c ?v \<noteq> zeroCoercion" using that by (auto simp: zeroCoercion_def)
    then show ?thesis
      using scanned_recorded_or_zero [OF assms, of ?v] by simp
  qed
  show ?thesis
    unfolding slotGuard_def specNarrowable_def fst_conv
    using ent ex by metis
qed

text \<open>
  Claim C1, as the code has it. Let the scan, started on the zeroed table at index
  1, stand at an instruction \<open>p\<close> of module \<open>batcalc\<close> with function \<open>+\<close>, \<open>-\<close>, \<open>*\<close>,
  \<open>/\<close> or \<open>%\<close> and three argument slots. The recorder leaves the table as it is,
  and \<open>coercionOptimizerCalcStep\<close> keeps the result slot, replaces operand slot 1 by
  the recorded source variable exactly when \<open>specNarrowable\<close> holds of slot 1 (same
  base type as the result, a candidate recorded for the operand variable, its
  recorded source not variable 0, its recorded source type below the result's base
  type), and the same, independently, for slot 2: both conditions are read off the
  instruction as it was before either rewrite. Nothing else of the block changes.
  The entry of the table for an operand variable is the candidate recorded for it.
  Without the proviso on variable 0 the claim fails: a candidate whose source is
  variable 0 is recorded and never applied.
\<close>

theorem rewriter_applies_recorded_candidates:
  assumes "scanned env (mb0, (\<lambda>v. zeroCoercion), 1, 0) (mb, c, i, n)" and "i < stop mb"
    and "getInstrPtr mb i = p"
    and "getModuleId p = batcalcRef"
    and "getFunctionId p \<in> {plusRef, minusRef, mulRef, divRef, Some ''%''}"
    and "argc p = 3"
  shows "recordCandidate env mb i p c = c \<and>
    coercionOptimizerCalcStep env mb i c =
      setInstr mb i (p\<lparr>argv :=
        [getArg p 0,
         if specNarrowable env (mb0, (\<lambda>v. zeroCoercion), 1, 0) (mb, c, i, n) p 1
         then src (c (getArg p 1)) else getArg p 1,
         if specNarrowable env (mb0, (\<lambda>v. zeroCoercion), 1, 0) (mb, c, i, n) p 2
         then src (c (getArg p 2)) else getArg p 2]\<rparr>) \<and>
    (\<forall>k e. recorded env (mb0, (\<lambda>v. zeroCoercion), 1, 0) (mb, c, i, n) (getArg p k) e \<longrightarrow>
       c (getArg p k) = e)"
proof -
  have f: "getFunctionId p \<noteq> hgeRef"
    using assms(5) by (auto simp: mal_defs)
  then have rec: "recordCandidate env mb i p c = c"
    by (simp add: recordCandidate_def wideConstructor_def)
  have g: "arithGuard p"
    using assms(4,5,6) by (auto simp: arithGuard_def mal_defs)
  obtain x0 x1 x2 where a: "argv p = [x0, x1, x2]"
    using assms(6) list3 [of "argv p"] by (auto simp: argc_def)
  have x: "getArg p 0 = x0" "getArg p 1 = x1" "getArg p 2 = x2"
    using a by (simp_all add: getArg_def)
  have "coercionOptimizerCalcStep env mb i c =
        setInstr mb i (p\<lparr>argv := [x0, if slotGuard env mb c p 1 then src (c x1) else x1,
                                     if slotGuard env mb c p 2 then src (c x2) else x2]\<rparr>)"
    unfolding calcStep_narrowInstr assms(3) narrowInstr_guarded [OF g a] ..
  then have step: "coercionOptimizerCalcStep env mb i c =
      setInstr mb i (p\<lparr>argv :=
        [getArg p 0,
         if specNarrowable env (mb0, (\<lambda>v. zeroCoercion), 1, 0) (mb, c, i, n) p 1
         then src (c (getArg p 1)) else getArg p 1,
         if specNarrowable env (mb0, (\<lambda>v. zeroCoercion), 1, 0) (mb, c, i, n) p 2
         then src (c (getArg p 2)) else getArg p 2]\<rparr>)"
    unfolding x slotGuard_spec [OF assms(1)] .
  have ent: "\<forall>k e. recorded env (mb0, (\<lambda>v. zeroCoercion), 1, 0) (mb, c, i, n) (getArg p k) e \<longrightarrow>
       c (getArg p k) = e"
    using recorded_entry by fastforce
  show ?thesis
    using rec step ent by blast
qed

lemma turn_exBlk4: "iteration exEnv (exBlk4, (\<lambda>v. zeroCoercion), 1, 0) = Inr (exBlk4, exTable6, 2, 0)"
  by (simp add: exBlk4_def exTable6_def ex_defs iteration_def recordCandidate_def
        coercionOptimizerCalcStep_def coercionOptimizerStep_def Let_def mal_defs)

theorem rewriter_applies_recorded_candidates_witness:
  "scanned exEnv (exBlk4, (\<lambda>v. zeroCoercion), 1, 0) (exBlk4, exTable6, 2, 0) \<and>
   recorded exEnv (exBlk4, (\<lambda>v. zeroCoercion), 1, 0) (exBlk4, exTable6, 2, 0) 2
     \<lparr>pc = 1, fromtype = 11, totype = 12, src = 1, digits = 18, scale = 2\<rparr> \<and>
   getInstrPtr exBlk4 2 = mkInstr (Some ''batcalc'') (Some ''+'') 1 [7, 2, 2] \<and>
   stmt (coercionOptimizerCalcStep exEnv exBlk4 2 exTable6) =
     [exSig, exWide, mkInstr (Some ''batcalc'') (Some ''+'') 1 [7, 1, 1]]"
proof -
  let ?init = "(exBlk4, (\<lambda>v. zeroCoercion), 1::nat, 0::int)"
  let ?st = "(exBlk4, exTable6, 2::nat, 0::int)"
  let ?e = "\<lparr>pc = 1, fromtype = 11, totype = 12, src = 1, digits = 18, scale = 2\<rparr>"
  have i1: "1 < stop exBlk4" by (simp add: exBlk4_def stop_def)
  have sc: "scanned exEnv ?init ?st"
    by (rule scanned_turn [OF scanned_start i1 turn_exBlk4])
  have w: "wideConstructor exEnv exBlk4 (getInstrPtr exBlk4 1)"
    by (simp add: exBlk4_def ex_defs mal_defs)
  have k: "getArg (getInstrPtr exBlk4 1) 0 = 2"
    "recordCandidate exEnv exBlk4 1 (getInstrPtr exBlk4 1) (\<lambda>v. zeroCoercion) 2 = ?e"
    by (simp_all add: exBlk4_def ex_defs recordCandidate_def mal_defs)
  have rc: "recorded exEnv ?init ?st 2 ?e"
    using recorded_new [OF scanned_start i1 w turn_exBlk4] unfolding k .
  have h: "2 < stop exBlk4" "getInstrPtr exBlk4 2 = getInstrPtr exBlk4 2"
    "getModuleId (getInstrPtr exBlk4 2) = batcalcRef"
    "getFunctionId (getInstrPtr exBlk4 2) \<in> {plusRef, minusRef, mulRef, divRef, Some ''%''}"
    "argc (getInstrPtr exBlk4 2) = 3"
    by (simp_all add: exBlk4_def ex_defs mal_defs)
  have n: "specNarrowable exEnv ?init ?st (getInstrPtr exBlk4 2) 1"
    "specNarrowable exEnv ?init ?st (getInstrPtr exBlk4 2) 2"
    unfolding specNarrowable_def
    using rc by (auto simp: exBlk4_def ex_defs mal_defs intro!: exI [of _ ?e])
  have p: "getInstrPtr exBlk4 2 = mkInstr (Some ''batcalc'') (Some ''+'') 1 [7, 2, 2]"
    by (simp add: exBlk4_def ex_defs mal_defs)
  show ?thesis
    using rewriter_applies_recorded_candidates [OF sc h] n sc rc p
    by (simp add: exBlk4_def exTable6_def ex_defs mal_defs)
qed

lemma turn_exBlk0: "iteration exEnv (exBlk0, (\<lambda>v. zeroCoercion), 1, 0) = Inr (exBlk0, exTable0, 2, 0)"
  by (simp add: exBlk0_def exTable0_def ex_defs iteration_def recordCandidate_def
        coercionOptimizerCalcStep_def coercionOptimizerStep_def Let_def mal_defs)

text \<open>
  The claim as it was stated fails on \<open>exBlk0\<close>, where the constructor widens
  variable 0: the candidate is recorded for \<open>v2\<close> (index 1, source type 5, source
  variable 0), \<open>v2\<close> has the base type of the result \<open>v7\<close> of the sum, the recorded
  source type 5 is below it, and the sum keeps both its operands.
\<close>

theorem source_zero_counterexample:
  "recorded exEnv (exBlk0, (\<lambda>v. zeroCoercion), 1, 0) (exBlk0, exTable0, 2, 0) 2
     \<lparr>pc = 1, fromtype = 5, totype = 12, src = 0, digits = 18, scale = 2\<rparr> \<and>
   getInstrPtr exBlk0 2 = mkInstr (Some ''batcalc'') (Some ''+'') 1 [7, 2, 2] \<and>
   getColumnType exEnv (getVarType exBlk0 2) = getColumnType exEnv (getVarType exBlk0 7) \<and>
   (5::int) < getColumnType exEnv (getVarType exBlk0 7) \<and>
   coercionOptimizerCalcStep exEnv exBlk0 2 exTable0 = exBlk0 \<and>
   OPTcoercionImplementation exEnv True exBlk0 = Inr (exBlk0, 0)"
proof -
  let ?init = "(exBlk0, (\<lambda>v. zeroCoercion), 1::nat, 0::int)"
  let ?e = "\<lparr>pc = 1, fromtype = 5, totype = 12, src = 0, digits = 18, scale = 2\<rparr>"
  have i1: "1 < stop exBlk0" by (simp add: exBlk0_def stop_def)
  have w: "wideConstructor exEnv exBlk0 (getInstrPtr exBlk0 1)"
    by (simp add: exBlk0_def ex_defs mal_defs)
  have k: "getArg (getInstrPtr exBlk0 1) 0 = 2"
    "recordCandidate exEnv exBlk0 1 (getInstrPtr exBlk0 1) (\<lambda>v. zeroCoercion) 2 = ?e"
    by (simp_all add: exBlk0_def ex_defs recordCandidate_def mal_defs)
  have rc: "recorded exEnv ?init (exBlk0, exTable0, 2, 0) 2 ?e"
    using recorded_new [OF scanned_start i1 w turn_exBlk0] unfolding k .
  have rest: "getInstrPtr exBlk0 2 = mkInstr (Some ''batcalc'') (Some ''+'') 1 [7, 2, 2]"
    "getColumnType exEnv (getVarType exBlk0 2) = getColumnType exEnv (getVarType exBlk0 7)"
    "(5::int) < getColumnType exEnv (getVarType exBlk0 7)"
    "coercionOptimizerCalcStep exEnv exBlk0 2 exTable0 = exBlk0"
    "OPTcoercionImplementation exEnv True exBlk0 = Inr (exBlk0, 0)"
    by (simp_all add: exBlk0_def exTable0_def ex_defs run_defs mal_defs)
  show ?thesis
    using rc rest by blast
qed

section \<open>The result variable of a removed instruction\<close>

lemma resultSlots_rename [simp]: "resultSlots (renameOperands a b q) = resultSlots q"
  by (cases "retc q \<le> length (argv q)") (simp_all add: resultSlots_def renameOperands_def)

lemma arithGuard_rename [simp]: "arithGuard (renameOperands a b q) = arithGuard q"
  by (simp add: arithGuard_def getModuleId_def getFunctionId_def)

lemma resultSlots_narrow:
  assumes "arithGuard q \<longrightarrow> retc q \<le> 1"
  shows "resultSlots (narrowInstr env mb q c) = resultSlots q"
proof (cases "arithGuard q")
  case False
  then show ?thesis by (simp add: narrowInstr_unguarded)
next
  case True
  then have "length (argv q) = 3" by (simp add: arithGuard_def argc_def)
  then obtain x0 x1 x2 where a: "argv q = [x0, x1, x2]"
    using list3 [of "argv q"] by auto
  have "retc q = 0 \<or> retc q = 1" using assms True by auto
  then show ?thesis
    unfolding narrowInstr_guarded [OF True a] using a by (auto simp: resultSlots_def)
qed

lemma scanned_loop: "scanned env s0 s \<Longrightarrow> loop env s = loop env s0"
proof (induction rule: scanned.induct)
  case scanned_start
  show ?case by simp
next
  case (scanned_turn mb c i n s')
  then show ?case using loop_turn [of i mb env c n s'] by simp
qed

lemma kept_slots:
  assumes "i < stop mb" and "oneResultArith mb"
  shows "map resultSlots (stmt (coercionOptimizerCalcStep env mb i c)) = map resultSlots (stmt mb)"
    and "oneResultArith (coercionOptimizerCalcStep env mb i c)"
proof -
  let ?q = "getInstrPtr mb i"
  have q: "?q \<in> set (stmt mb)"
    using assms(1) by (simp add: getInstrPtr_def stop_def)
  then have r: "resultSlots (narrowInstr env mb ?q c) = resultSlots ?q"
    using assms(2) by (intro resultSlots_narrow) (simp add: oneResultArith_def)
  show "map resultSlots (stmt (coercionOptimizerCalcStep env mb i c)) = map resultSlots (stmt mb)"
  proof -
    have "map resultSlots ((stmt mb)[i := narrowInstr env mb ?q c]) =
          (map resultSlots (stmt mb))[i := map resultSlots (stmt mb) ! i]"
      using r assms(1) by (simp add: map_update getInstrPtr_def stop_def)
    also have "\<dots> = map resultSlots (stmt mb)"
      by (rule list_update_id)
    finally show ?thesis
      unfolding calcStep_narrowInstr by (simp add: setInstr_def)
  qed
  have "set (stmt (setInstr mb i (narrowInstr env mb ?q c))) \<subseteq>
        insert (narrowInstr env mb ?q c) (set (stmt mb))"
    by (simp add: setInstr_def set_update_subset_insert)
  then show "oneResultArith (coercionOptimizerCalcStep env mb i c)"
    unfolding calcStep_narrowInstr oneResultArith_def
    using assms(2) q by (auto simp: oneResultArith_def)
qed

lemma removed_slots:
  assumes "i < stop mb" and "oneResultArith mb"
  shows "map resultSlots (stmt (renameFrom a b i (removeInstruction mb i))) =
         take i (map resultSlots (stmt mb)) @ drop (Suc i) (map resultSlots (stmt mb))"
    and "oneResultArith (renameFrom a b i (removeInstruction mb i))"
proof -
  show "map resultSlots (stmt (renameFrom a b i (removeInstruction mb i))) =
         take i (map resultSlots (stmt mb)) @ drop (Suc i) (map resultSlots (stmt mb))"
    using assms(1) by (simp add: stmt_removed_renamed take_map drop_map)
  have "set (stmt (renameFrom a b i (removeInstruction mb i))) \<subseteq>
        set (stmt mb) \<union> renameOperands a b ` set (stmt mb)"
    using assms(1) by (auto simp: stmt_removed_renamed dest: in_set_takeD in_set_dropD)
  then show "oneResultArith (renameFrom a b i (removeInstruction mb i))"
    using assms(2) unfolding oneResultArith_def by auto
qed

lemma filter_remove_le:
  "length (filter P (take i xs @ drop (Suc i) xs)) \<le> length (filter P xs)"
proof (cases "i < length xs")
  case True
  then have "xs = take i xs @ xs ! i # drop (Suc i) xs"
    by (simp add: id_take_nth_drop)
  then have "filter P xs = filter P (take i xs) @ filter P (xs ! i # drop (Suc i) xs)"
    by (metis filter_append)
  then show ?thesis by simp
next
  case False
  then show ?thesis by simp
qed

lemma filter_remove_only:
  assumes "i < length xs" and "P (xs ! i)" and "length (filter P xs) \<le> 1"
  shows "\<forall>x\<in>set (take i xs @ drop (Suc i) xs). \<not> P x"
proof -
  have "xs = take i xs @ xs ! i # drop (Suc i) xs"
    using assms(1) by (simp add: id_take_nth_drop)
  then have "filter P xs = filter P (take i xs) @ xs ! i # filter P (drop (Suc i) xs)"
    using assms(2) by (metis filter.simps(2) filter_append)
  then have "length (filter P (take i xs)) + length (filter P (drop (Suc i) xs)) = 0"
    using assms(3) by simp
  then have "filter P (take i xs) = []" "filter P (drop (Suc i) xs) = []"
    by simp_all
  then show ?thesis
    by (auto simp: filter_empty_conv)
qed

lemma iteration_slots:
  assumes "iteration env (mb, c, i, n) = Inr (mb2, c2, i2, n2)" and "i < stop mb"
    and "oneResultArith mb"
  shows "oneResultArith mb2"
    and "map resultSlots (stmt mb2) = map resultSlots (stmt mb) \<or>
         map resultSlots (stmt mb2) =
           take i (map resultSlots (stmt mb)) @ drop (Suc i) (map resultSlots (stmt mb))"
  using iteration_cases [OF assms(1,2)] kept_slots [OF assms(2,3)] removed_slots [OF assms(2,3)]
  by metis+

lemma iteration_defs:
  assumes "iteration env (mb, c, i, n) = Inr (mb2, c2, i2, n2)" and "i < stop mb"
    and "oneResultArith mb"
  shows "length (filter (\<lambda>r. a \<in> set r) (map resultSlots (stmt mb2))) \<le>
         length (filter (\<lambda>r. a \<in> set r) (map resultSlots (stmt mb)))"
    and "(\<forall>r\<in>set (map resultSlots (stmt mb)). a \<notin> set r) \<Longrightarrow>
         (\<forall>r\<in>set (map resultSlots (stmt mb2)). a \<notin> set r)"
proof -
  note alt = iteration_slots(2) [OF assms]
  show "length (filter (\<lambda>r. a \<in> set r) (map resultSlots (stmt mb2))) \<le>
         length (filter (\<lambda>r. a \<in> set r) (map resultSlots (stmt mb)))"
  proof (rule disjE [OF alt])
    assume "map resultSlots (stmt mb2) = map resultSlots (stmt mb)"
    then show ?thesis by (simp only: le_refl)
  next
    assume "map resultSlots (stmt mb2) =
           take i (map resultSlots (stmt mb)) @ drop (Suc i) (map resultSlots (stmt mb))"
    then show ?thesis
      using filter_remove_le [of "\<lambda>r. a \<in> set r" i "map resultSlots (stmt mb)"]
      by (simp only:)
  qed
  assume no: "\<forall>r\<in>set (map resultSlots (stmt mb)). a \<notin> set r"
  have rem: "set (take i (map resultSlots (stmt mb)) @ drop (Suc i) (map resultSlots (stmt mb))) \<subseteq>
        set (map resultSlots (stmt mb))"
    by (auto dest: in_set_takeD in_set_dropD)
  have "set (map resultSlots (stmt mb2)) \<subseteq> set (map resultSlots (stmt mb))"
  proof (rule disjE [OF alt])
    assume "map resultSlots (stmt mb2) = map resultSlots (stmt mb)"
    then show ?thesis by (simp only: subset_refl)
  next
    assume "map resultSlots (stmt mb2) =
           take i (map resultSlots (stmt mb)) @ drop (Suc i) (map resultSlots (stmt mb))"
    then show ?thesis using rem by (simp only:)
  qed
  then show "\<forall>r\<in>set (map resultSlots (stmt mb2)). a \<notin> set r"
    using no by blast
qed

lemma scanned_defs:
  assumes "scanned env s0 s" and "oneResultArith (fst s0)"
  shows "oneResultArith (fst s) \<and>
         length (filter (\<lambda>r. a \<in> set r) (map resultSlots (stmt (fst s)))) \<le>
         length (filter (\<lambda>r. a \<in> set r) (map resultSlots (stmt (fst s0))))"
  using assms
proof (induction rule: scanned.induct)
  case scanned_start
  then show ?case by simp
next
  case (scanned_turn mb c i n s')
  obtain mb2 c2 i2 n2 where s': "s' = (mb2, c2, i2, n2)" by (cases s') auto
  note it = scanned_turn.hyps(3) [unfolded s']
  have sh: "oneResultArith mb" using scanned_turn by simp
  show ?case
    using iteration_slots(1) [OF it scanned_turn.hyps(2) sh]
      iteration_defs(1) [OF it scanned_turn.hyps(2) sh, of a] scanned_turn s'
    by simp
qed

lemma loop_defs:
  "loop env s = Inr (mbF, nF) \<Longrightarrow> oneResultArith (fst s) \<Longrightarrow>
   \<forall>r\<in>set (map resultSlots (stmt (fst s))). a \<notin> set r \<Longrightarrow>
   \<forall>r\<in>set (map resultSlots (stmt mbF)). a \<notin> set r"
proof (induction s rule: loop_induct [where env = env])
  case (turn mb c i n)
  show ?case
  proof (cases "i < stop mb")
    case False
    then show ?thesis using turn.prems by (simp add: loop_exit)
  next
    case True
    show ?thesis
    proof (cases "iteration env (mb, c, i, n)")
      case (Inl e)
      then show ?thesis using turn.prems True by (simp add: loop_error)
    next
      case (Inr s')
      obtain mb2 c2 i2 n2 where s': "s' = (mb2, c2, i2, n2)" by (cases s') auto
      note it = Inr [unfolded s']
      have sh: "oneResultArith mb" using turn.prems(2) by simp
      have run: "loop env s' = Inr (mbF, nF)"
        using turn.prems loop_turn [OF True Inr] by simp
      show ?thesis
        using turn.IH [OF True Inr run] s' iteration_slots(1) [OF it True sh]
          iteration_defs(2) [OF it True sh, of a] turn.prems(3)
        by simp
    qed
  qed
qed

lemma removal_turn:
  assumes "i < stop mb" and "getInstrPtr mb i = p" and "getModuleId p = calcRef"
    and "argc p = 2" and "coercionOptimizerStep env mb i p = Inr (mb2, k)"
  shows "iteration env (mb, c, i, n) = Inr (mb2, c, (if k \<noteq> 0 then i else i + 1), n + k)"
proof -
  have nb: "getModuleId (getInstrPtr mb i) \<noteq> batcalcRef"
    using assms(2,3) by (simp add: calcRef_def batcalcRef_def)
  have F: "(getModuleId (getInstrPtr mb i) = None) = False"
    using assms(2,3) by (simp add: calcRef_def)
  show ?thesis
    unfolding iteration_def prod.case F if_False Let_def
      recordCandidate_no_module [OF nb] calcStep_no_module [OF nb]
    using assms(2-5) by simp
qed

lemma first_slot_is_result:
  assumes "argc p = 2" and "0 < retc p"
  shows "getArg p 0 \<in> set (resultSlots p)"
proof -
  have "0 < length (take (retc p) (argv p))"
    using assms by (simp add: argc_def)
  then have "take (retc p) (argv p) ! 0 \<in> set (take (retc p) (argv p))"
    by (rule nth_mem)
  then show ?thesis
    using assms(2) by (simp add: resultSlots_def getArg_def)
qed

lemma slots_argv: "set (argv q) = set (resultSlots q) \<union> set (operandSlots q)"
  unfolding resultSlots_def operandSlots_def
  by (metis append_take_drop_id set_append)

lemma operandSlots_rename:
  "operandSlots (renameOperands x y q) = map (\<lambda>v. if v = x then y else v) (operandSlots q)"
  by (cases "retc q \<le> length (argv q)") (simp_all add: operandSlots_def renameOperands_def)

lemma operand_free_rename:
  assumes "a \<notin> set (operandSlots q)" and "y \<noteq> a"
  shows "a \<notin> set (operandSlots (renameOperands x y q))"
  using assms unfolding operandSlots_rename by auto

lemma operand_free_narrow:
  assumes "a \<notin> set (operandSlots q)" and "\<forall>v. src (c v) \<noteq> a"
  shows "a \<notin> set (operandSlots (narrowInstr env mb q c))"
proof (cases "arithGuard q")
  case False
  then show ?thesis using assms(1) by (simp add: narrowInstr_unguarded)
next
  case True
  then have "length (argv q) = 3" by (simp add: arithGuard_def argc_def)
  then obtain x0 x1 x2 where x: "argv q = [x0, x1, x2]"
    using list3 [of "argv q"] by auto
  consider "retc q = 0" | "retc q = 1" | "retc q = 2" | "3 \<le> retc q"
    by linarith
  then show ?thesis
  proof cases
    case 1
    then show ?thesis
      using assms x unfolding narrowInstr_guarded [OF True x]
      by (auto simp: operandSlots_def)
  next
    case 2
    then show ?thesis
      using assms x unfolding narrowInstr_guarded [OF True x]
      by (auto simp: operandSlots_def)
  next
    case 3
    then have "drop (retc q) [x0, x1, x2] = [x2]" "\<And>y1 y2. drop (retc q) [x0, y1, y2] = [y2]"
      by (simp_all add: numeral_2_eq_2)
    then show ?thesis
      using assms x unfolding narrowInstr_guarded [OF True x]
      by (auto simp: operandSlots_def)
  next
    case 4
    then show ?thesis
      unfolding narrowInstr_guarded [OF True x] by (simp add: operandSlots_def)
  qed
qed

lemma record_source_free:
  assumes "a \<notin> set (operandSlots q)" and "\<forall>v. src (c v) \<noteq> a"
  shows "\<forall>v. src (recordCandidate env mb i q c v) \<noteq> a"
proof (cases "wideConstructor env mb q")
  case False
  then show ?thesis using assms(2) by (simp add: recordCandidate_def)
next
  case True
  then have s: "retc q = 1" "length (argv q) = 5"
    by (simp_all add: wideConstructor_def argc_def)
  then have "drop (retc q) (argv q) ! 1 \<in> set (drop (retc q) (argv q))"
    by (intro nth_mem) simp
  then have "getArg q 2 \<in> set (operandSlots q)"
    using s by (simp add: operandSlots_def getArg_def numeral_2_eq_2)
  then have "getArg q 2 \<noteq> a" using assms(1) by auto
  then show ?thesis
    using assms(2) True by (simp add: recordCandidate_def Let_def)
qed

lemma drop_update_sub:
  "set (drop i (xs[j := y])) \<subseteq> insert y (set (drop i xs))"
proof (cases "i \<le> j")
  case True
  then have "drop i (xs[j := y]) = (drop i xs)[j - i := y]"
    by (simp add: drop_update_swap)
  then show ?thesis
    by (simp add: set_update_subset_insert)
next
  case False
  then show ?thesis by auto
qed

lemma iteration_cleared:
  assumes it: "iteration env (mb, c, j, n) = Inr (mb2, c2, j2, n2)" and j: "j < stop mb"
    and ij: "i \<le> j" and cl: "cleared a i mb c"
  shows "cleared a i mb2 c2"
proof -
  let ?q = "getInstrPtr mb j"
  let ?c1 = "recordCandidate env mb j ?q c"
  let ?q1 = "narrowInstr env mb ?q ?c1"
  have sh: "oneResultArith mb" and nodef: "\<forall>q\<in>set (stmt mb). a \<notin> set (resultSlots q)"
    and noop: "\<forall>q\<in>set (drop i (stmt mb)). a \<notin> set (operandSlots q)"
    and nosrc: "\<forall>v. src (c v) \<noteq> a"
    using cl by (simp_all add: cleared_def)
  have qin: "?q \<in> set (drop i (stmt mb))"
  proof -
    have "drop i (stmt mb) ! (j - i) = stmt mb ! j"
      using ij j by (simp add: stop_def)
    moreover have "j - i < length (drop i (stmt mb))"
      using ij j by (simp add: stop_def)
    ultimately show ?thesis
      unfolding getInstrPtr_def by (metis nth_mem)
  qed
  then have qop: "a \<notin> set (operandSlots ?q)" using noop by simp
  have qall: "?q \<in> set (stmt mb)"
    using j by (simp add: getInstrPtr_def stop_def)
  have sh2: "oneResultArith mb2"
    using iteration_slots(1) [OF it j sh] .
  have nodef2: "\<forall>q\<in>set (stmt mb2). a \<notin> set (resultSlots q)"
    using iteration_defs(2) [OF it j sh, of a] nodef by simp
  have c2: "c2 = ?c1" using iteration_table [OF it j] .
  have nosrc1: "\<forall>v. src (?c1 v) \<noteq> a"
    using record_source_free [OF qop nosrc] .
  note cases = iteration_cases [OF it j]
  have noop2: "\<forall>q\<in>set (drop i (stmt mb2)). a \<notin> set (operandSlots q)"
  proof (cases "j2 = j")
    case False
    then have mb2: "mb2 = setInstr mb j ?q1"
      using cases by (auto simp: calcStep_narrowInstr)
    have "a \<notin> set (operandSlots ?q1)"
      using operand_free_narrow [OF qop nosrc1] .
    moreover have "set (drop i (stmt mb2)) \<subseteq> insert ?q1 (set (drop i (stmt mb)))"
      unfolding mb2 by (simp add: setInstr_def drop_update_sub)
    ultimately show ?thesis using noop by blast
  next
    case True
    then have rm: "removes env mb ?q1" "?c1 = c"
      and mb2: "mb2 = renameFrom (getArg ?q1 0) (getArg ?q1 1) j (removeInstruction mb j)"
      using cases by auto
    have "getModuleId ?q \<noteq> batcalcRef"
      using rm(1) by (simp add: removes_def getModuleId_def calcRef_def batcalcRef_def)
    then have "\<not> arithGuard ?q" by (simp add: arithGuard_def)
    then have q1: "?q1 = ?q" by (simp add: narrowInstr_unguarded)
    have "argc ?q = 2" using rm(1) q1 by (simp add: removes_def)
    then have "getArg ?q 1 \<in> set (argv ?q)"
      by (simp add: getArg_def argc_def)
    then have y: "getArg ?q 1 \<noteq> a"
      using qop nodef qall unfolding slots_argv by auto
    have st: "stmt mb2 = take j (stmt mb) @
                map (renameOperands (getArg ?q 0) (getArg ?q 1)) (drop (Suc j) (stmt mb))"
      unfolding mb2 q1 using j by (rule stmt_removed_renamed)
    have "drop i (stmt mb2) = drop i (take j (stmt mb)) @
                map (renameOperands (getArg ?q 0) (getArg ?q 1)) (drop (Suc j) (stmt mb))"
      unfolding st using ij j by (simp add: stop_def)
    moreover have "set (drop i (take j (stmt mb))) \<subseteq> set (drop i (stmt mb))"
      by (metis drop_take set_take_subset)
    moreover have "set (drop (Suc j) (stmt mb)) \<subseteq> set (drop i (stmt mb))"
      using ij by (metis Suc_leD le_Suc_eq set_drop_subset_set_drop)
    ultimately show ?thesis
      using noop operand_free_rename [OF _ y] by auto
  qed
  show ?thesis
    unfolding cleared_def c2 using sh2 nodef2 noop2 nosrc1 by simp
qed

lemma loop_cleared:
  "loop env s = Inr (mbF, nF) \<Longrightarrow> i \<le> fst (snd (snd s)) \<Longrightarrow>
   cleared a i (fst s) (fst (snd s)) \<Longrightarrow>
   \<forall>q\<in>set (drop i (stmt mbF)). a \<notin> set (operandSlots q)"
proof (induction s rule: loop_induct [where env = env])
  case (turn mb c j n)
  show ?case
  proof (cases "j < stop mb")
    case False
    then show ?thesis using turn.prems by (simp add: loop_exit cleared_def)
  next
    case True
    show ?thesis
    proof (cases "iteration env (mb, c, j, n)")
      case (Inl e)
      then show ?thesis using turn.prems True by (simp add: loop_error)
    next
      case (Inr s')
      obtain mb2 c2 j2 n2 where s': "s' = (mb2, c2, j2, n2)" by (cases s') auto
      note it = Inr [unfolded s']
      have ij: "i \<le> j" using turn.prems(2) by simp
      have cl: "cleared a i mb2 c2"
        using iteration_cleared [OF it True ij] turn.prems(3) by simp
      have "j \<le> j2" using iteration_prefix [OF it True] by simp
      then have ij2: "i \<le> j2" using ij by simp
      have run: "loop env s' = Inr (mbF, nF)"
        using turn.prems loop_turn [OF True Inr] by simp
      show ?thesis
        using turn.IH [OF True Inr run] s' ij2 cl by simp
    qed
  qed
qed



end
